theory Spec2Isabelle
  imports Main "HOL-Library.Word"
begin

unbundle bit_operations_syntax

section \<open>Password-based file envelopes: \<open>encrypt_file\<close> and \<open>decrypt_file\<close>\<close>

text \<open>
  The development embeds the two functions \<^verbatim>\<open>encrypt_file\<close> and \<^verbatim>\<open>decrypt_file\<close> of
  \<^verbatim>\<open>src/main.py\<close>. Both are straight-line compositions of library calls
  (\<^verbatim>\<open>os.urandom\<close>, \<^verbatim>\<open>Scrypt\<close>, \<^verbatim>\<open>base64\<close>, \<^verbatim>\<open>Fernet\<close>, \<^verbatim>\<open>json\<close>).

  \<^item> Python \<^verbatim>\<open>bytes\<close> are \<open>char list\<close> (an Isabelle \<open>char\<close> is one octet); a Python
    \<^verbatim>\<open>str\<close> that is known to be ASCII is a \<open>string\<close> as well, and the password, an
    arbitrary \<^verbatim>\<open>str\<close>, is a list of code points.
  \<^item> Every exception is a value of \<open>error\<close>; each function returns \<open>error + 'a\<close>.
  \<^item> The operating system's entropy and clock are the explicit input \<open>world\<close>.
  \<^item> The cryptographic primitives that the libraries compute (the scrypt function,
    AES-128 in CBC mode, HMAC-SHA256) are the fields of the parameter \<open>crypto\<close>; what the
    libraries document about them is the predicate \<open>crypto_contract\<close>.
  \<^item> The framing the libraries put around the primitives (base64 with Python's lenient
    decoder, the JSON text, the checks of the \<^verbatim>\<open>Scrypt\<close> and \<^verbatim>\<open>Fernet\<close> constructors, the layout
    of a Fernet token, PKCS7 padding) is written out, since the claims are about it.
\<close>

type_synonym bytes = string

datatype error =
    UnicodeEncodeError
  | JSONDecodeError
  | OutsideModel
  | TypeError
  | KeyError string
  | AttributeError
  | BinasciiError
  | ValueError
  | ScryptDeriveError
  | OverflowError
  | InvalidToken

text \<open>
  \<open>OutsideModel\<close> is not a Python exception: \<open>json_loads\<close> returns it for JSON text that
  the model does not interpret (non-ASCII bytes, escape sequences, floats, nested
  containers). \<open>ScryptDeriveError\<close> stands for whatever \<^verbatim>\<open>Scrypt.derive\<close> raises in the
  OpenSSL binding (\<^verbatim>\<open>MemoryError\<close>, \<^verbatim>\<open>ValueError\<close>, \<^verbatim>\<open>OverflowError\<close>).
\<close>

subsection \<open>\<^verbatim>\<open>base64.urlsafe_b64encode\<close> and \<^verbatim>\<open>base64.urlsafe_b64decode\<close>\<close>

definition b64_char :: "nat \<Rightarrow> char" where
  "b64_char i =
     (if i < 26 then char_of (65 + i)
      else if i < 52 then char_of (71 + i)
      else if i < 62 then char_of (i - 4)
      else if i = 62 then CHR ''-'' else CHR ''_'')"

text \<open>
  The decoder first translates \<^verbatim>\<open>-\<close> to \<^verbatim>\<open>+\<close> and \<^verbatim>\<open>_\<close> to \<^verbatim>\<open>/\<close> and then uses the standard
  table, so both alphabets are accepted.
\<close>

definition b64_value :: "char \<Rightarrow> nat option" where
  "b64_value c =
     (let n = (of_char c :: nat) in
      if 65 \<le> n \<and> n \<le> 90 then Some (n - 65)
      else if 97 \<le> n \<and> n \<le> 122 then Some (n - 71)
      else if 48 \<le> n \<and> n \<le> 57 then Some (n + 4)
      else if c = CHR ''+'' \<or> c = CHR ''-'' then Some 62
      else if c = CHR ''/'' \<or> c = CHR ''_'' then Some 63
      else None)"

text \<open>Three octets become four characters; the last group is padded with \<^verbatim>\<open>=\<close>.\<close>

fun urlsafe_b64encode :: "bytes \<Rightarrow> bytes" where
  "urlsafe_b64encode [] = []"
| "urlsafe_b64encode [a] =
     (let x = (of_char a :: nat) in
      [b64_char (x div 4), b64_char (x mod 4 * 16), CHR ''='', CHR ''=''])"
| "urlsafe_b64encode [a, b] =
     (let x = (of_char a :: nat); y = (of_char b :: nat) in
      [b64_char (x div 4), b64_char (x mod 4 * 16 + y div 16),
       b64_char (y mod 16 * 4), CHR ''=''])"
| "urlsafe_b64encode (a # b # c # rest) =
     (let x = (of_char a :: nat); y = (of_char b :: nat); z = (of_char c :: nat) in
      [b64_char (x div 4), b64_char (x mod 4 * 16 + y div 16),
       b64_char (y mod 16 * 4 + z div 64), b64_char (z mod 64)]
      @ urlsafe_b64encode rest)"

text \<open>
  \<^verbatim>\<open>binascii.a2b_base64\<close> in its default, non-strict mode, as the loop of CPython 3.11
  and later: a character outside the alphabet is skipped, a \<^verbatim>\<open>=\<close> counts as padding only
  from the third position of a quad on, a complete pad sequence ends the input (what
  follows is ignored, and so are the unused low bits of the last character), and input
  that ends inside a quad is an error. The shifts of the C code are written as
  multiplications and divisions.
\<close>

fun a2b_base64 :: "nat \<Rightarrow> nat \<Rightarrow> nat \<Rightarrow> bytes \<Rightarrow> bytes \<Rightarrow> error + bytes" where
  "a2b_base64 quad_pos leftchar pads bin [] =
     (if quad_pos \<noteq> 0 then Inl BinasciiError else Inr bin)"
| "a2b_base64 quad_pos leftchar pads bin (c # cs) =
     (if c = CHR ''='' then
        (if quad_pos \<ge> 2 then
           (if quad_pos + (pads + 1) \<ge> 4 then Inr bin
            else a2b_base64 quad_pos leftchar (pads + 1) bin cs)
         else a2b_base64 quad_pos leftchar pads bin cs)
      else
        (case b64_value c of
           None \<Rightarrow> a2b_base64 quad_pos leftchar pads bin cs
         | Some v \<Rightarrow>
            (if quad_pos = 0 then a2b_base64 1 v 0 bin cs
             else if quad_pos = 1 then
               a2b_base64 2 (v mod 16) 0 (bin @ [char_of (leftchar * 4 + v div 16)]) cs
             else if quad_pos = 2 then
               a2b_base64 3 (v mod 4) 0 (bin @ [char_of (leftchar * 16 + v div 4)]) cs
             else
               a2b_base64 0 0 0 (bin @ [char_of (leftchar * 64 + v)]) cs)))"

definition urlsafe_b64decode :: "bytes \<Rightarrow> error + bytes" where
  "urlsafe_b64decode s = a2b_base64 0 0 0 [] s"

subsection \<open>\<^verbatim>\<open>str.encode("utf-8")\<close>\<close>

text \<open>
  The password is a Python \<^verbatim>\<open>str\<close>: a list of code points below \<open>0x110000\<close>. A lone
  surrogate cannot be encoded.
\<close>

definition utf8_char :: "nat \<Rightarrow> error + bytes" where
  "utf8_char c =
     (if c < 0x80 then Inr [char_of c]
      else if c < 0x800 then Inr [char_of (0xC0 + c div 64), char_of (0x80 + c mod 64)]
      else if 0xD800 \<le> c \<and> c \<le> 0xDFFF then Inl UnicodeEncodeError
      else if c < 0x10000 then
        Inr [char_of (0xE0 + c div 4096), char_of (0x80 + c div 64 mod 64),
             char_of (0x80 + c mod 64)]
      else
        Inr [char_of (0xF0 + c div 262144), char_of (0x80 + c div 4096 mod 64),
             char_of (0x80 + c div 64 mod 64), char_of (0x80 + c mod 64)])"

fun str_encode :: "nat list \<Rightarrow> error + bytes" where
  "str_encode [] = Inr []"
| "str_encode (c # cs) =
     (case utf8_char c of
        Inl e \<Rightarrow> Inl e
      | Inr b \<Rightarrow> (case str_encode cs of Inl e \<Rightarrow> Inl e | Inr bs \<Rightarrow> Inr (b @ bs)))"

subsection \<open>JSON values, \<^verbatim>\<open>json.dumps\<close> and \<^verbatim>\<open>json.loads\<close>\<close>

text \<open>
  The Python objects that travel through the two functions: strings, integers, booleans
  and \<^verbatim>\<open>None\<close>, and a dictionary of them in insertion order.
\<close>

datatype jvalue = JString string | JInt int | JBool bool | JNull

datatype json = JScalar jvalue | JObject "(string \<times> jvalue) list"

definition hex_digit :: "nat \<Rightarrow> char" where
  "hex_digit d = (if d < 10 then char_of (48 + d) else char_of (87 + d))"

text \<open>
  \<^verbatim>\<open>json.encoder.py_encode_basestring_ascii\<close>: everything but the printable ASCII
  characters other than the quote and the backslash is escaped.
\<close>

definition escape_char :: "char \<Rightarrow> string" where
  "escape_char c =
     (if c = CHR 0x22 then [CHR 0x5C, CHR 0x22]
      else if c = CHR 0x5C then [CHR 0x5C, CHR 0x5C]
      else if c = CHR 0x08 then [CHR 0x5C, CHR ''b'']
      else if c = CHR 0x0C then [CHR 0x5C, CHR ''f'']
      else if c = CHR 0x0A then [CHR 0x5C, CHR ''n'']
      else if c = CHR 0x0D then [CHR 0x5C, CHR ''r'']
      else if c = CHR 0x09 then [CHR 0x5C, CHR ''t'']
      else if 32 \<le> (of_char c :: nat) \<and> (of_char c :: nat) \<le> 126 then [c]
      else [CHR 0x5C, CHR ''u'', CHR ''0'', CHR ''0'',
            hex_digit ((of_char c :: nat) div 16), hex_digit ((of_char c :: nat) mod 16)])"

definition dumps_string :: "string \<Rightarrow> string" where
  "dumps_string s = [CHR 0x22] @ concat (map escape_char s) @ [CHR 0x22]"

function digits :: "nat \<Rightarrow> string" where
  "digits n = (if n < 10 then [char_of (48 + n)] else digits (n div 10) @ [char_of (48 + n mod 10)])"
  by pat_completeness auto
termination
  by (relation "measure id") auto

definition dumps_int :: "int \<Rightarrow> string" where
  "dumps_int i = (if i < 0 then CHR ''-'' # digits (nat (- i)) else digits (nat i))"

fun dumps_value :: "jvalue \<Rightarrow> string" where
  "dumps_value (JString s) = dumps_string s"
| "dumps_value (JInt i) = dumps_int i"
| "dumps_value (JBool b) = (if b then ''true'' else ''false'')"
| "dumps_value JNull = ''null''"

fun dumps_items :: "(string \<times> jvalue) list \<Rightarrow> string" where
  "dumps_items [] = []"
| "dumps_items [(k, v)] = dumps_string k @ '': '' @ dumps_value v"
| "dumps_items ((k, v) # kv # kvs) =
     dumps_string k @ '': '' @ dumps_value v @ '', '' @ dumps_items (kv # kvs)"

fun json_dumps :: "json \<Rightarrow> bytes" where
  "json_dumps (JScalar v) = dumps_value v"
| "json_dumps (JObject kvs) = ''{'' @ dumps_items kvs @ ''}''"

text \<open>
  \<^verbatim>\<open>json.loads\<close> on ASCII text whose top level is a scalar or an object of scalars. What the
  model leaves out is answered with \<open>OutsideModel\<close>: any octet above \<open>0x7f\<close> or a NUL (Python
  would first guess an encoding and decode), an escape sequence in a string, a number with a
  fraction or an exponent, \<^verbatim>\<open>NaN\<close> and \<^verbatim>\<open>Infinity\<close>, and an array or a nested object.
\<close>

definition is_ws :: "char \<Rightarrow> bool" where
  "is_ws c = (c = CHR '' '' \<or> c = CHR 0x09 \<or> c = CHR 0x0A \<or> c = CHR 0x0D)"

definition skip_ws :: "string \<Rightarrow> string" where
  "skip_ws s = dropWhile is_ws s"

fun scanstring :: "string \<Rightarrow> string \<Rightarrow> error + (string \<times> string)" where
  "scanstring acc [] = Inl JSONDecodeError"
| "scanstring acc (c # cs) =
     (if c = CHR 0x22 then Inr (acc, cs)
      else if c = CHR 0x5C then Inl OutsideModel
      else if (of_char c :: nat) < 32 then Inl JSONDecodeError
      else scanstring (acc @ [c]) cs)"

definition is_digit :: "char \<Rightarrow> bool" where
  "is_digit c = (48 \<le> (of_char c :: nat) \<and> (of_char c :: nat) \<le> 57)"

fun scan_digits :: "nat \<Rightarrow> string \<Rightarrow> nat \<times> string" where
  "scan_digits acc [] = (acc, [])"
| "scan_digits acc (c # cs) =
     (if is_digit c then scan_digits (acc * 10 + ((of_char c :: nat) - 48)) cs
      else (acc, c # cs))"

fun strip_prefix :: "string \<Rightarrow> string \<Rightarrow> string option" where
  "strip_prefix [] s = Some s"
| "strip_prefix (p # ps) [] = None"
| "strip_prefix (p # ps) (c # cs) = (if p = c then strip_prefix ps cs else None)"

text \<open>The number pattern of the decoder: \<^verbatim>\<open>(-?(?:0|[1-9]\d*))(\.\d+)?([eE][-+]?\d+)?\<close>.\<close>

definition scan_number :: "string \<Rightarrow> error + (jvalue \<times> string)" where
  "scan_number s =
     (let neg = (case s of [] \<Rightarrow> False | c # cs \<Rightarrow> c = CHR ''-'');
          s1 = (if neg then tl s else s)
      in case s1 of
           [] \<Rightarrow> Inl JSONDecodeError
         | d # ds \<Rightarrow>
            (if \<not> is_digit d then Inl JSONDecodeError
             else
               (let (v, rest) = (if d = CHR ''0'' then (0, ds) else scan_digits 0 s1)
                in case rest of
                     [] \<Rightarrow> Inr (JInt (if neg then - int v else int v), rest)
                   | c # cs \<Rightarrow>
                      (if c = CHR ''.'' \<or> c = CHR ''e'' \<or> c = CHR ''E'' then Inl OutsideModel
                       else Inr (JInt (if neg then - int v else int v), rest)))))"

definition scan_value :: "string \<Rightarrow> error + (jvalue \<times> string)" where
  "scan_value s =
     (case s of
        [] \<Rightarrow> Inl JSONDecodeError
      | c # cs \<Rightarrow>
         (if c = CHR 0x22 then
            (case scanstring [] cs of
               Inl e \<Rightarrow> Inl e
             | Inr (str, rest) \<Rightarrow> Inr (JString str, rest))
          else if c = CHR ''{'' \<or> c = CHR ''['' then Inl OutsideModel
          else
            (case strip_prefix ''null'' s of
               Some rest \<Rightarrow> Inr (JNull, rest)
             | None \<Rightarrow>
            (case strip_prefix ''true'' s of
               Some rest \<Rightarrow> Inr (JBool True, rest)
             | None \<Rightarrow>
            (case strip_prefix ''false'' s of
               Some rest \<Rightarrow> Inr (JBool False, rest)
             | None \<Rightarrow>
            (if strip_prefix ''NaN'' s \<noteq> None \<or> strip_prefix ''Infinity'' s \<noteq> None
                \<or> strip_prefix ''-Infinity'' s \<noteq> None
             then Inl OutsideModel
             else scan_number s))))))"

text \<open>
  The members of an object, from the opening quote of a key: \<^verbatim>\<open>"key" : value\<close>, then
  \<^verbatim>\<open>}\<close> or \<^verbatim>\<open>,\<close> and the next member. Each round consumes input, which is the
  termination argument.
\<close>

lemma scanstring_shorter: "scanstring acc s = Inr (str, rest) \<Longrightarrow> length rest < length s"
  by (induction acc s rule: scanstring.induct) (auto split: if_splits)

lemma skip_ws_length: "length (skip_ws s) \<le> length s"
  by (simp add: skip_ws_def length_dropWhile_le)

lemma strip_prefix_length: "strip_prefix p s = Some rest \<Longrightarrow> length rest \<le> length s"
  by (induction p s rule: strip_prefix.induct) (auto split: if_splits)

lemma scan_digits_length: "scan_digits acc s = (v, rest) \<Longrightarrow> length rest \<le> length s"
  by (induction acc s arbitrary: v rest rule: scan_digits.induct) (auto split: if_splits)

lemma scan_number_length: "scan_number s = Inr (v, rest) \<Longrightarrow> length rest \<le> length s"
proof -
  assume a: "scan_number s = Inr (v, rest)"
  define neg where "neg = (case s of [] \<Rightarrow> False | c # cs \<Rightarrow> c = CHR ''-'')"
  define s1 where "s1 = (if neg then tl s else s)"
  have s1: "length s1 \<le> length s" by (simp add: s1_def)
  from a obtain d ds where s1c: "s1 = d # ds" and dg: "is_digit d"
    by (cases s1) (auto simp: scan_number_def Let_def neg_def s1_def split: if_splits)
  define vr where "vr = (if d = CHR ''0'' then (0, ds) else scan_digits 0 s1)"
  have "length (snd vr) \<le> length s1"
    using scan_digits_length [of 0 s1 "fst vr" "snd vr"] by (auto simp: vr_def s1c)
  moreover have "rest = snd vr"
    using a s1c dg unfolding scan_number_def neg_def [symmetric] Let_def s1_def [symmetric]
    by (auto simp: vr_def split: prod.splits list.splits if_splits)
  ultimately show ?thesis using s1 by simp
qed

lemma scan_value_length: "scan_value s = Inr (v, rest) \<Longrightarrow> length rest \<le> length s"
proof -
  assume a: "scan_value s = Inr (v, rest)"
  then obtain c cs where s: "s = c # cs"
    by (cases s) (auto simp: scan_value_def)
  show ?thesis
  proof (cases "c = CHR 0x22")
    case True
    with a s obtain str where "scanstring [] cs = Inr (str, rest)"
      by (auto simp: scan_value_def split: sum.splits)
    then show ?thesis using s by (auto dest: scanstring_shorter)
  next
    case False
    with a s have br: "\<not> (c = CHR ''{'' \<or> c = CHR ''['')"
      by (auto simp: scan_value_def)
    from a s False br have
      "strip_prefix ''null'' s = Some rest \<or> strip_prefix ''true'' s = Some rest
       \<or> strip_prefix ''false'' s = Some rest \<or> scan_number s = Inr (v, rest)"
      unfolding scan_value_def
      by (simp split: option.splits if_splits del: strip_prefix.simps)
    then show ?thesis
      by (auto dest: strip_prefix_length scan_number_length)
  qed
qed

function parse_members ::
  "(string \<times> jvalue) list \<Rightarrow> string \<Rightarrow> error + ((string \<times> jvalue) list \<times> string)" where
  "parse_members acc s =
     (case s of
        [] \<Rightarrow> Inl JSONDecodeError
      | c # cs \<Rightarrow>
         (if c \<noteq> CHR 0x22 then Inl JSONDecodeError
          else
            (case scanstring [] cs of
               Inl e \<Rightarrow> Inl e
             | Inr (key, r1) \<Rightarrow>
                (case skip_ws r1 of
                   [] \<Rightarrow> Inl JSONDecodeError
                 | c2 # r2 \<Rightarrow>
                    (if c2 \<noteq> CHR '':'' then Inl JSONDecodeError
                     else
                       (case scan_value (skip_ws r2) of
                          Inl e \<Rightarrow> Inl e
                        | Inr (v, r3) \<Rightarrow>
                           (case skip_ws r3 of
                              [] \<Rightarrow> Inl JSONDecodeError
                            | c4 # r4 \<Rightarrow>
                               (if c4 = CHR ''}'' then Inr (acc @ [(key, v)], r4)
                                else if c4 \<noteq> CHR '','' then Inl JSONDecodeError
                                else parse_members (acc @ [(key, v)]) (skip_ws r4)))))))))"
  by pat_completeness auto
termination
proof (relation "measure (\<lambda>(acc, s). length s)", goal_cases)
  case 1
  show ?case by simp
next
  case (2 acc s c cs x2 key r1 c2 r2 x2a v r3 c4 r4)
  have "length r1 < length cs"
    using 2 by (auto dest: scanstring_shorter)
  moreover have "length (c2 # r2) \<le> length r1"
    using 2 skip_ws_length [of r1] by simp
  moreover have "length r3 \<le> length (skip_ws r2)"
    using 2 by (auto dest: scan_value_length)
  moreover have "length (skip_ws r2) \<le> length r2"
    by (rule skip_ws_length)
  moreover have "length (c4 # r4) \<le> length r3"
    using 2 skip_ws_length [of r3] by simp
  moreover have "length (skip_ws r4) \<le> length r4"
    by (rule skip_ws_length)
  ultimately show ?case
    using 2 by simp
qed

definition finish_loads :: "json \<Rightarrow> string \<Rightarrow> error + json" where
  "finish_loads j rest = (if skip_ws rest = [] then Inr j else Inl JSONDecodeError)"

definition json_loads :: "bytes \<Rightarrow> error + json" where
  "json_loads bs =
     (if list_ex (\<lambda>c. (of_char c :: nat) \<ge> 128 \<or> (of_char c :: nat) = 0) bs then Inl OutsideModel
      else
        (case skip_ws bs of
           [] \<Rightarrow> Inl JSONDecodeError
         | c # cs \<Rightarrow>
            (if c = CHR ''{'' then
               (case skip_ws cs of
                  [] \<Rightarrow> Inl JSONDecodeError
                | d # ds \<Rightarrow>
                   (if d = CHR ''}'' then finish_loads (JObject []) ds
                    else
                      (case parse_members [] (d # ds) of
                         Inl e \<Rightarrow> Inl e
                       | Inr (kvs, rest) \<Rightarrow> finish_loads (JObject kvs) rest)))
             else
               (case scan_value (c # cs) of
                  Inl e \<Rightarrow> Inl e
                | Inr (v, rest) \<Rightarrow> finish_loads (JScalar v) rest))))"

subsection \<open>Python's handling of the parsed message\<close>

text \<open>
  \<^verbatim>\<open>encrypted_message["key"]\<close>: subscripting anything but a dictionary is a
  \<^verbatim>\<open>TypeError\<close>, a missing key a \<^verbatim>\<open>KeyError\<close>; of a repeated key the last value counts.
\<close>

definition getitem :: "json \<Rightarrow> string \<Rightarrow> error + jvalue" where
  "getitem j k =
     (case j of
        JScalar v \<Rightarrow> Inl TypeError
      | JObject kvs \<Rightarrow>
         (case map_of (rev kvs) k of None \<Rightarrow> Inl (KeyError k) | Some v \<Rightarrow> Inr v))"

text \<open>
  \<^verbatim>\<open>value.encode("utf-8")\<close> on a value of the message: only a string has the method. The
  strings \<open>json_loads\<close> returns are ASCII, so the encoding is the identity; likewise
  \<^verbatim>\<open>.decode("utf-8")\<close> on the output of \<open>urlsafe_b64encode\<close> in \<open>encrypt_file\<close>.
\<close>

definition jstr_encode :: "jvalue \<Rightarrow> error + bytes" where
  "jstr_encode v = (case v of JString s \<Rightarrow> Inr s | _ \<Rightarrow> Inl AttributeError)"

text \<open>A Python integer; \<^verbatim>\<open>bool\<close> is a subclass of \<^verbatim>\<open>int\<close>.\<close>

definition py_int :: "jvalue \<Rightarrow> int option" where
  "py_int v =
     (case v of JInt i \<Rightarrow> Some i | JBool b \<Rightarrow> Some (if b then 1 else 0) | _ \<Rightarrow> None)"

fun bind_r :: "error + 'a \<Rightarrow> ('a \<Rightarrow> error + 'b) \<Rightarrow> error + 'b" where
  "bind_r (Inl e) f = Inl e"
| "bind_r (Inr x) f = f x"

subsection \<open>The environment and the cryptographic primitives\<close>

text \<open>
  \<open>entropy\<close> is the octet sequence \<^verbatim>\<open>os.urandom\<close> will deliver, \<open>clock\<close> is
  \<^verbatim>\<open>int(time.time())\<close>.
\<close>

record world =
  entropy :: "nat \<Rightarrow> char"
  clock :: int

definition os_urandom :: "nat \<Rightarrow> (nat \<Rightarrow> char) \<Rightarrow> bytes \<times> (nat \<Rightarrow> char)" where
  "os_urandom k e = (map e [0..<k], \<lambda>i. e (i + k))"

text \<open>
  \<open>scrypt_derive password salt length n r p\<close> is the scrypt function as the OpenSSL binding
  computes it (\<open>None\<close> when it raises); the block cipher takes key, initialisation vector
  and data; the MAC takes key and message.
\<close>

record crypto =
  scrypt_derive :: "bytes \<Rightarrow> bytes \<Rightarrow> int \<Rightarrow> int \<Rightarrow> int \<Rightarrow> int \<Rightarrow> bytes option"
  aes128_cbc_encrypt :: "bytes \<Rightarrow> bytes \<Rightarrow> bytes \<Rightarrow> bytes"
  aes128_cbc_decrypt :: "bytes \<Rightarrow> bytes \<Rightarrow> bytes \<Rightarrow> bytes"
  hmac_sha256 :: "bytes \<Rightarrow> bytes \<Rightarrow> bytes"

text \<open>
  What the libraries document about the primitives: scrypt returns exactly \<open>length\<close> octets,
  CBC decryption inverts CBC encryption on whole blocks and keeps the length, and the MAC
  is 32 octets long.
\<close>

definition crypto_contract :: "crypto \<Rightarrow> bool" where
  "crypto_contract cr \<longleftrightarrow>
     (\<forall>pw salt l n r p k. scrypt_derive cr pw salt l n r p = Some k \<longrightarrow> int (length k) = l) \<and>
     (\<forall>k iv m. length k = 16 \<and> length iv = 16 \<and> length m mod 16 = 0 \<longrightarrow>
        length (aes128_cbc_encrypt cr k iv m) = length m \<and>
        aes128_cbc_decrypt cr k iv (aes128_cbc_encrypt cr k iv m) = m) \<and>
     (\<forall>k m. length (hmac_sha256 cr k m) = 32)"

subsection \<open>\<^verbatim>\<open>cryptography.hazmat.primitives.kdf.scrypt.Scrypt\<close>\<close>

record scrypt =
  kdf_salt :: bytes
  kdf_length :: jvalue
  kdf_n :: int
  kdf_r :: int
  kdf_p :: int

text \<open>
  The constructor stores \<open>length\<close> and checks, in this order, that \<open>n\<close> is at least 2 and
  \<^verbatim>\<open>n & (n - 1) == 0\<close>, that \<open>r\<close> is at least 1 and that \<open>p\<close> is at least 1; comparing a
  value that is not a number is a \<^verbatim>\<open>TypeError\<close>.
\<close>

definition Scrypt :: "bytes \<Rightarrow> jvalue \<Rightarrow> jvalue \<Rightarrow> jvalue \<Rightarrow> jvalue \<Rightarrow> error + scrypt" where
  "Scrypt salt length' n r p =
     (case py_int n of
        None \<Rightarrow> Inl TypeError
      | Some n' \<Rightarrow>
         (if n' < 2 \<or> (n' AND (n' - 1)) \<noteq> 0 then Inl ValueError
          else
            (case py_int r of
               None \<Rightarrow> Inl TypeError
             | Some r' \<Rightarrow>
                (if r' < 1 then Inl ValueError
                 else
                   (case py_int p of
                      None \<Rightarrow> Inl TypeError
                    | Some p' \<Rightarrow>
                       (if p' < 1 then Inl ValueError
                        else Inr \<lparr>kdf_salt = salt, kdf_length = length', kdf_n = n',
                               kdf_r = r', kdf_p = p'\<rparr>))))))"

definition derive :: "crypto \<Rightarrow> scrypt \<Rightarrow> bytes \<Rightarrow> error + bytes" where
  "derive cr kdf key_material =
     (case py_int (kdf_length kdf) of
        None \<Rightarrow> Inl TypeError
      | Some l \<Rightarrow>
         (case scrypt_derive cr key_material (kdf_salt kdf) l (kdf_n kdf) (kdf_r kdf) (kdf_p kdf) of
            None \<Rightarrow> Inl ScryptDeriveError
          | Some k \<Rightarrow> Inr k))"

subsection \<open>\<^verbatim>\<open>cryptography.fernet.Fernet\<close>\<close>

record fernet =
  signing_key :: bytes
  encryption_key :: bytes

text \<open>The constructor decodes the key and insists on 32 octets.\<close>

definition Fernet :: "bytes \<Rightarrow> error + fernet" where
  "Fernet key =
     (case urlsafe_b64decode key of
        Inl e \<Rightarrow> Inl ValueError
      | Inr k \<Rightarrow>
         (if length k \<noteq> 32 then Inl ValueError
          else Inr \<lparr>signing_key = take 16 k, encryption_key = drop 16 k\<rparr>))"

definition pkcs7_pad :: "bytes \<Rightarrow> bytes" where
  "pkcs7_pad data =
     (let k = 16 - length data mod 16 in data @ replicate k (char_of k))"

definition pkcs7_unpad :: "bytes \<Rightarrow> bytes option" where
  "pkcs7_unpad bs =
     (if bs = [] \<or> length bs mod 16 \<noteq> 0 then None
      else
        (let k = (of_char (last bs) :: nat) in
         if k = 0 \<or> k > 16 then None
         else if drop (length bs - k) bs = replicate k (last bs)
         then Some (take (length bs - k) bs) else None))"

text \<open>\<^verbatim>\<open>current_time.to_bytes(length=8, byteorder="big")\<close>\<close>

definition int_to_bytes8 :: "int \<Rightarrow> error + bytes" where
  "int_to_bytes8 t =
     (if t < 0 \<or> t \<ge> 2 ^ 64 then Inl OverflowError
      else
        (let v = nat t in
         Inr [char_of (v div 2 ^ 56), char_of (v div 2 ^ 48), char_of (v div 2 ^ 40),
              char_of (v div 2 ^ 32), char_of (v div 2 ^ 24), char_of (v div 2 ^ 16),
              char_of (v div 2 ^ 8), char_of v]))"

text \<open>
  \<^verbatim>\<open>Fernet.encrypt\<close>: the token is the version octet \<open>0x80\<close>, the time, a fresh
  initialisation vector, the CBC encryption of the padded data and the MAC of all that,
  in base64.
\<close>

definition fernet_encrypt :: "crypto \<Rightarrow> fernet \<Rightarrow> world \<Rightarrow> bytes \<Rightarrow> error + bytes" where
  "fernet_encrypt cr f w data =
     (let current_time = clock w;
          iv = fst (os_urandom 16 (entropy w));
          padded_data = pkcs7_pad data;
          ciphertext = aes128_cbc_encrypt cr (encryption_key f) iv padded_data
      in bind_r (int_to_bytes8 current_time) (\<lambda>ts.
           let basic_parts = CHR 0x80 # ts @ iv @ ciphertext;
               hmac = hmac_sha256 cr (signing_key f) basic_parts
           in Inr (urlsafe_b64encode (basic_parts @ hmac))))"

text \<open>
  \<^verbatim>\<open>Fernet.decrypt\<close> without a time limit: every failure but a wrong length of the
  initialisation vector is \<^verbatim>\<open>InvalidToken\<close>. The slices \<^verbatim>\<open>data[:-32]\<close>, \<^verbatim>\<open>data[-32:]\<close>,
  \<^verbatim>\<open>data[9:25]\<close> and \<^verbatim>\<open>data[25:-32]\<close> are written with \<open>take\<close> and \<open>drop\<close>.
\<close>

definition fernet_decrypt :: "crypto \<Rightarrow> fernet \<Rightarrow> bytes \<Rightarrow> error + bytes" where
  "fernet_decrypt cr f token =
     (case urlsafe_b64decode token of
        Inl e \<Rightarrow> Inl InvalidToken
      | Inr data \<Rightarrow>
         (if data = [] \<or> hd data \<noteq> CHR 0x80 then Inl InvalidToken
          else if length data < 9 then Inl InvalidToken
          else if hmac_sha256 cr (signing_key f) (take (length data - 32) data)
                    \<noteq> drop (length data - 32) data
          then Inl InvalidToken
          else
            (let iv = take 16 (drop 9 data);
                 ciphertext = drop 25 (take (length data - 32) data)
             in if length iv \<noteq> 16 then Inl ValueError
                else if length ciphertext mod 16 \<noteq> 0 then Inl InvalidToken
                else
                  (case pkcs7_unpad (aes128_cbc_decrypt cr (encryption_key f) iv ciphertext) of
                     None \<Rightarrow> Inl InvalidToken
                   | Some plaintext \<Rightarrow> Inr plaintext))))"

subsection \<open>\<^verbatim>\<open>encrypt_file\<close> and \<^verbatim>\<open>decrypt_file\<close>\<close>

definition encrypt_file :: "crypto \<Rightarrow> world \<Rightarrow> nat list \<Rightarrow> bytes \<Rightarrow> error + bytes" where
  "encrypt_file cr w password file_bytes =
     (let salt = fst (os_urandom 32 (entropy w));
          w' = w\<lparr>entropy := snd (os_urandom 32 (entropy w))\<rparr>;
          length' = JInt 32;
          n = JInt (2 ^ 17); r = JInt 8; p = JInt 1
      in bind_r (Scrypt salt length' n r p) (\<lambda>kdf.
         bind_r (str_encode password) (\<lambda>key_material.
         bind_r (derive cr kdf key_material) (\<lambda>derived.
         let symmetric_key = urlsafe_b64encode derived
         in bind_r (Fernet symmetric_key) (\<lambda>f.
            bind_r (fernet_encrypt cr f w' file_bytes) (\<lambda>ciphertext.
            Inr (json_dumps (JObject
              [(''salt'', JString (urlsafe_b64encode salt)),
               (''length'', length'),
               (''n'', n),
               (''r'', r),
               (''p'', p),
               (''ciphertext_b64'', JString (urlsafe_b64encode ciphertext))]))))))))"

definition decrypt_file :: "crypto \<Rightarrow> nat list \<Rightarrow> bytes \<Rightarrow> error + bytes" where
  "decrypt_file cr password file_bytes =
     bind_r (json_loads file_bytes) (\<lambda>encrypted_message.
     bind_r (getitem encrypted_message ''salt'') (\<lambda>salt_field.
     bind_r (jstr_encode salt_field) (\<lambda>salt_b64.
     bind_r (urlsafe_b64decode salt_b64) (\<lambda>salt.
     bind_r (getitem encrypted_message ''length'') (\<lambda>length'.
     bind_r (getitem encrypted_message ''n'') (\<lambda>n.
     bind_r (getitem encrypted_message ''r'') (\<lambda>r.
     bind_r (getitem encrypted_message ''p'') (\<lambda>p.
     bind_r (Scrypt salt length' n r p) (\<lambda>kdf.
     bind_r (str_encode password) (\<lambda>key_material.
     bind_r (derive cr kdf key_material) (\<lambda>derived.
     let symmetric_key = urlsafe_b64encode derived
     in bind_r (getitem encrypted_message ''ciphertext_b64'') (\<lambda>ciphertext_field.
        bind_r (jstr_encode ciphertext_field) (\<lambda>ciphertext_b64.
        bind_r (urlsafe_b64decode ciphertext_b64) (\<lambda>ciphertext.
        bind_r (Fernet symmetric_key) (\<lambda>f.
        fernet_decrypt cr f ciphertext)))))))))))))))"

subsection \<open>Vocabulary for the statements\<close>

text \<open>
  \<open>plain_char\<close>: a printable ASCII character that \<^verbatim>\<open>json.dumps\<close> writes as it is.
  \<open>envelope_message\<close>: the dictionary \<open>encrypt_file\<close> serialises, with the two base64 strings
  as parameters. \<open>member_text\<close> and \<open>string_text\<close> spell the text of a member and of a
  string.
\<close>

definition plain_char :: "char \<Rightarrow> bool" where
  "plain_char c \<longleftrightarrow> 32 \<le> (of_char c :: nat) \<and> (of_char c :: nat) \<le> 126 \<and> (of_char c :: nat) \<noteq> 34 \<and> (of_char c :: nat) \<noteq> 92"

definition envelope_message :: "bytes \<Rightarrow> bytes \<Rightarrow> json" where
  "envelope_message salt_b64 ciphertext_b64 = JObject
     [(''salt'', JString salt_b64), (''length'', JInt 32), (''n'', JInt (2 ^ 17)),
      (''r'', JInt 8), (''p'', JInt 1), (''ciphertext_b64'', JString ciphertext_b64)]"

definition member_text :: "string \<Rightarrow> string \<Rightarrow> string" where
  "member_text k vt = CHR 0x22 # k @ CHR 0x22 # CHR '':'' # CHR '' '' # vt"

definition string_text :: "string \<Rightarrow> string \<Rightarrow> string" where
  "string_text s rest = CHR 0x22 # s @ CHR 0x22 # rest"

subsection \<open>A small instance of the primitives and sample envelopes\<close>

text \<open>
  An executable stand-in for the primitives that meets \<open>crypto_contract\<close>; the theorems
  below are instantiated with it on concrete inputs.
\<close>

definition demo_crypto :: crypto where
  "demo_crypto =
     \<lparr>scrypt_derive = (\<lambda>pw salt l n r p.
        if l < 0 then None else Some (take (nat l) (pw @ salt @ replicate (nat l) (CHR 0x00)))),
      aes128_cbc_encrypt = (\<lambda>k iv m. m),
      aes128_cbc_decrypt = (\<lambda>k iv m. m),
      hmac_sha256 = (\<lambda>k m. take 32 (k @ m @ replicate 32 (CHR 0x00)))\<rparr>"

definition short_key_envelope :: bytes where
  "short_key_envelope = json_dumps (JObject
     [(''salt'', JString ''AAAA''), (''length'', JInt 16), (''n'', JInt 2), (''r'', JInt 1),
      (''p'', JInt 1), (''ciphertext_b64'', JString ''AAAA'')])"

text \<open>The token \<open>fernet_encrypt\<close> builds, before base64.\<close>

definition fernet_parts :: "crypto \<Rightarrow> fernet \<Rightarrow> bytes \<Rightarrow> bytes \<Rightarrow> bytes \<Rightarrow> bytes" where
  "fernet_parts cr f ts iv data =
     CHR 0x80 # ts @ iv @ aes128_cbc_encrypt cr (encryption_key f) iv (pkcs7_pad data)"

definition fernet_token :: "crypto \<Rightarrow> fernet \<Rightarrow> bytes \<Rightarrow> bytes \<Rightarrow> bytes \<Rightarrow> bytes" where
  "fernet_token cr f ts iv data =
     urlsafe_b64encode (fernet_parts cr f ts iv data
        @ hmac_sha256 cr (signing_key f) (fernet_parts cr f ts iv data))"

definition drawn_salt :: "world \<Rightarrow> bytes" where
  "drawn_salt w = fst (os_urandom 32 (entropy w))"

definition drawn_iv :: "world \<Rightarrow> bytes" where
  "drawn_iv w = fst (os_urandom 16 (snd (os_urandom 32 (entropy w))))"

definition key_pair :: "bytes \<Rightarrow> fernet" where
  "key_pair k = \<lparr>signing_key = take 16 k, encryption_key = drop 16 k\<rparr>"

definition sealed_envelope :: "crypto \<Rightarrow> bytes \<Rightarrow> bytes \<Rightarrow> bytes \<Rightarrow> bytes \<Rightarrow> bytes \<Rightarrow> bytes" where
  "sealed_envelope cr salt k ts iv data =
     json_dumps (envelope_message (urlsafe_b64encode salt)
       (urlsafe_b64encode (fernet_token cr (key_pair k) ts iv data)))"

definition demo_world :: world where
  "demo_world = \<lparr>entropy = (\<lambda>i. char_of i), clock = 1700000000\<rparr>"

text \<open>
  The part of \<open>encrypt_file\<close> up to the assignment of \<^verbatim>\<open>symmetric_key\<close> (lines 62 to 67), and
  the part of \<open>decrypt_file\<close> up to the same assignment (lines 95 to 104).
\<close>

definition encrypt_symmetric_key :: "crypto \<Rightarrow> world \<Rightarrow> nat list \<Rightarrow> error + bytes" where
  "encrypt_symmetric_key cr w password =
     (let salt = fst (os_urandom 32 (entropy w));
          length' = JInt 32;
          n = JInt (2 ^ 17); r = JInt 8; p = JInt 1
      in bind_r (Scrypt salt length' n r p) (\<lambda>kdf.
         bind_r (str_encode password) (\<lambda>key_material.
         bind_r (derive cr kdf key_material) (\<lambda>derived.
         Inr (urlsafe_b64encode derived)))))"

definition decrypt_symmetric_key :: "crypto \<Rightarrow> nat list \<Rightarrow> bytes \<Rightarrow> error + bytes" where
  "decrypt_symmetric_key cr password file_bytes =
     bind_r (json_loads file_bytes) (\<lambda>encrypted_message.
     bind_r (getitem encrypted_message ''salt'') (\<lambda>salt_field.
     bind_r (jstr_encode salt_field) (\<lambda>salt_b64.
     bind_r (urlsafe_b64decode salt_b64) (\<lambda>salt.
     bind_r (getitem encrypted_message ''length'') (\<lambda>length'.
     bind_r (getitem encrypted_message ''n'') (\<lambda>n.
     bind_r (getitem encrypted_message ''r'') (\<lambda>r.
     bind_r (getitem encrypted_message ''p'') (\<lambda>p.
     bind_r (Scrypt salt length' n r p) (\<lambda>kdf.
     bind_r (str_encode password) (\<lambda>key_material.
     bind_r (derive cr kdf key_material) (\<lambda>derived.
     Inr (urlsafe_b64encode derived))))))))))))"

definition demo_world2 :: world where
  "demo_world2 = \<lparr>entropy = (\<lambda>i. char_of (i + 1)), clock = 1700000001\<rparr>"

text \<open>A character of the URL-safe alphabet, or the padding character.\<close>

definition b64url_char :: "char \<Rightarrow> bool" where
  "b64url_char c \<longleftrightarrow> (\<exists>i < 64. c = b64_char i) \<or> c = CHR ''=''"

definition odd_n_envelope :: bytes where
  \<open>odd_n_envelope =
     ''{"salt": "AAAA", "length": 32, "n": 3, "r": 8, "p": 1, "ciphertext_b64": "AAAA"}''\<close>

definition huge_cost_envelope :: bytes where
  \<open>huge_cost_envelope =
     ''{"salt": "AAAA", "length": 32, "n": 1073741824, "r": 64, "p": 64, "ciphertext_b64": "AAAA"}''\<close>

definition failing_crypto :: crypto where
  "failing_crypto = demo_crypto\<lparr>scrypt_derive := (\<lambda>pw salt l n r p. None)\<rparr>"

section \<open>Properties of the library framing\<close>

subsection \<open>Base64: decoding inverts encoding\<close>

lemma b64_value_char: "i < 64 \<Longrightarrow> b64_value (b64_char i) = Some i"
  by (auto simp: b64_value_def b64_char_def Let_def)

lemma b64_value_pad: "b64_value CHR ''='' = None"
  by (simp add: b64_value_def)

lemma b64_char_not_pad: "i < 64 \<Longrightarrow> b64_char i \<noteq> CHR ''=''"
  using b64_value_char [of i] b64_value_pad by auto

lemma a2b_step:
  "i < 64 \<Longrightarrow> a2b_base64 q l p bin (b64_char i # cs) =
     (if q = 0 then a2b_base64 1 i 0 bin cs
      else if q = 1 then a2b_base64 2 (i mod 16) 0 (bin @ [char_of (l * 4 + i div 16)]) cs
      else if q = 2 then a2b_base64 3 (i mod 4) 0 (bin @ [char_of (l * 16 + i div 4)]) cs
      else a2b_base64 0 0 0 (bin @ [char_of (l * 64 + i)]) cs)"
  by (simp add: b64_value_char b64_char_not_pad)

lemma sextet_bounds:
  fixes x y z :: nat
  assumes "x < 256" "y < 256" "z < 256"
  shows "x div 4 < 64" "x mod 4 * 16 < 64" "x mod 4 * 16 + y div 16 < 64"
    "y mod 16 * 4 < 64" "y mod 16 * 4 + z div 64 < 64" "z mod 64 < 64"
  using assms by auto

lemma sextet_join:
  fixes x y z :: nat
  assumes "x < 256" "y < 256" "z < 256"
  shows "x div 4 * 4 + (x mod 4 * 16 + y div 16) div 16 = x"
    "(x mod 4 * 16 + y div 16) mod 16 * 16 + (y mod 16 * 4 + z div 64) div 4 = y"
    "(y mod 16 * 4 + z div 64) mod 4 * 64 + z mod 64 = z"
    "x div 4 * 4 + (x mod 4 * 16) div 16 = x"
    "(x mod 4 * 16 + y div 16) mod 16 * 16 + (y mod 16 * 4) div 4 = y"
  using assms by auto

lemma a2b_quad:
  assumes "s1 < 64" "s2 < 64" "s3 < 64" "s4 < 64"
  shows "a2b_base64 0 0 0 bin (b64_char s1 # b64_char s2 # b64_char s3 # b64_char s4 # cs) =
     a2b_base64 0 0 0 (bin @ [char_of (s1 * 4 + s2 div 16), char_of (s2 mod 16 * 16 + s3 div 4),
        char_of (s3 mod 4 * 64 + s4)]) cs"
  using assms by (simp add: a2b_step del: a2b_base64.simps)

lemma a2b_pad1:
  assumes "s1 < 64" "s2 < 64" "s3 < 64"
  shows "a2b_base64 0 0 0 bin (b64_char s1 # b64_char s2 # b64_char s3 # CHR ''='' # cs) =
     Inr (bin @ [char_of (s1 * 4 + s2 div 16), char_of (s2 mod 16 * 16 + s3 div 4)])"
  using assms by (simp add: a2b_step del: a2b_base64.simps) simp

lemma a2b_pad2:
  assumes "s1 < 64" "s2 < 64"
  shows "a2b_base64 0 0 0 bin (b64_char s1 # b64_char s2 # CHR ''='' # CHR ''='' # cs) =
     Inr (bin @ [char_of (s1 * 4 + s2 div 16)])"
  using assms by (simp add: a2b_step del: a2b_base64.simps) simp

text \<open>
  Decoding an encoding followed by anything: after whole groups the decoder goes on with
  the rest, after a padded group it stops.
\<close>

lemma a2b_encode:
  "a2b_base64 0 0 0 bin (urlsafe_b64encode bs @ cs') =
     (if length bs mod 3 = 0 then a2b_base64 0 0 0 (bin @ bs) cs' else Inr (bin @ bs))"
proof (induction bs arbitrary: bin rule: urlsafe_b64encode.induct)
  case 1
  then show ?case by simp
next
  case (2 a)
  define x where "x = (of_char a :: nat)"
  have x: "x < 256" by (simp add: x_def)
  note b = sextet_bounds [OF x x x]
  have c1: "char_of (x div 4 * 4 + (x mod 4 * 16) div 16) = a"
    by (simp only: sextet_join(4) [OF x x x]) (simp add: x_def)
  have e: "urlsafe_b64encode [a] @ cs'
     = b64_char (x div 4) # b64_char (x mod 4 * 16) # CHR ''='' # CHR ''='' # cs'"
    by (simp add: x_def Let_def)
  have "a2b_base64 0 0 0 bin (urlsafe_b64encode [a] @ cs') = Inr (bin @ [a])"
    by (simp only: e a2b_pad2 [OF b(1) b(2)] c1)
  moreover have "length [a] mod 3 \<noteq> 0" by simp
  ultimately show ?case by (simp only: if_False)
next
  case (3 a b)
  define x where "x = (of_char a :: nat)"
  define y where "y = (of_char b :: nat)"
  have x: "x < 256" and y: "y < 256" by (simp_all add: x_def y_def)
  note bd = sextet_bounds [OF x y y]
  have c1: "char_of (x div 4 * 4 + (x mod 4 * 16 + y div 16) div 16) = a"
    by (simp only: sextet_join(1) [OF x y y]) (simp add: x_def)
  have c2: "char_of ((x mod 4 * 16 + y div 16) mod 16 * 16 + (y mod 16 * 4) div 4) = b"
    by (simp only: sextet_join(5) [OF x y y]) (simp add: y_def)
  have e: "urlsafe_b64encode [a, b] @ cs'
     = b64_char (x div 4) # b64_char (x mod 4 * 16 + y div 16) # b64_char (y mod 16 * 4)
        # CHR ''='' # cs'"
    by (simp add: x_def y_def Let_def)
  have "a2b_base64 0 0 0 bin (urlsafe_b64encode [a, b] @ cs') = Inr (bin @ [a, b])"
    by (simp only: e a2b_pad1 [OF bd(1) bd(3) bd(4)] c1 c2)
  moreover have "length [a, b] mod 3 \<noteq> 0" by simp
  ultimately show ?case by (simp only: if_False)
next
  case (4 a b c rest)
  define x where "x = (of_char a :: nat)"
  define y where "y = (of_char b :: nat)"
  define z where "z = (of_char c :: nat)"
  have x: "x < 256" and y: "y < 256" and z: "z < 256" by (simp_all add: x_def y_def z_def)
  note bd = sextet_bounds [OF x y z]
  have c1: "char_of (x div 4 * 4 + (x mod 4 * 16 + y div 16) div 16) = a"
    by (simp only: sextet_join(1) [OF x y z]) (simp add: x_def)
  have c2: "char_of ((x mod 4 * 16 + y div 16) mod 16 * 16 + (y mod 16 * 4 + z div 64) div 4) = b"
    by (simp only: sextet_join(2) [OF x y z]) (simp add: y_def)
  have c3: "char_of ((y mod 16 * 4 + z div 64) mod 4 * 64 + z mod 64) = c"
    by (simp only: sextet_join(3) [OF x y z]) (simp add: z_def)
  have e: "urlsafe_b64encode (a # b # c # rest) @ cs'
     = b64_char (x div 4) # b64_char (x mod 4 * 16 + y div 16)
        # b64_char (y mod 16 * 4 + z div 64) # b64_char (z mod 64)
        # (urlsafe_b64encode rest @ cs')"
    by (simp add: x_def y_def z_def Let_def)
  have l: "(length (a # b # c # rest) mod 3 = 0) = (length rest mod 3 = 0)"
    by simp
  have ap: "(bin @ [a, b, c]) @ rest = bin @ a # b # c # rest"
    by simp
  have "a2b_base64 0 0 0 bin (urlsafe_b64encode (a # b # c # rest) @ cs')
      = a2b_base64 0 0 0 (bin @ [a, b, c]) (urlsafe_b64encode rest @ cs')"
    by (simp only: e a2b_quad [OF bd(1) bd(3) bd(5) bd(6)] c1 c2 c3)
  also have "\<dots> = (if length rest mod 3 = 0 then a2b_base64 0 0 0 ((bin @ [a, b, c]) @ rest) cs'
       else Inr ((bin @ [a, b, c]) @ rest))"
    by (rule "4.IH") (rule refl)+
  finally show ?case by (simp only: l ap)
qed

lemma urlsafe_b64_roundtrip: "urlsafe_b64decode (urlsafe_b64encode bs) = Inr bs"
  using a2b_encode [of "[]" bs "[]"] by (simp add: urlsafe_b64decode_def)

lemma urlsafe_b64encode_inj:
  assumes "urlsafe_b64encode a = urlsafe_b64encode b"
  shows "a = b"
proof -
  have "Inr a = urlsafe_b64decode (urlsafe_b64encode a)"
    by (simp only: urlsafe_b64_roundtrip)
  also have "\<dots> = urlsafe_b64decode (urlsafe_b64encode b)"
    by (simp only: assms)
  also have "\<dots> = Inr b"
    by (simp only: urlsafe_b64_roundtrip)
  finally show ?thesis by (simp only: sum.inject)
qed

subsection \<open>JSON: the envelope text parses back to the dictionary\<close>

lemma b64_char_plain: "i < 64 \<Longrightarrow> plain_char (b64_char i)"
  by (auto simp: plain_char_def b64_char_def)

lemma urlsafe_b64encode_plain: "list_all plain_char (urlsafe_b64encode bs)"
proof (induction bs rule: urlsafe_b64encode.induct)
  case 1
  show ?case by simp
next
  case (2 a)
  note b = sextet_bounds [OF nat_of_char_less_256 [of a] nat_of_char_less_256 [of a] nat_of_char_less_256 [of a]]
  have "plain_char CHR ''=''" by (simp add: plain_char_def)
  then show ?case using b by (simp add: Let_def b64_char_plain)
next
  case (3 a b)
  note bd = sextet_bounds [OF nat_of_char_less_256 [of a] nat_of_char_less_256 [of b] nat_of_char_less_256 [of b]]
  have "plain_char CHR ''=''" by (simp add: plain_char_def)
  then show ?case using bd by (simp add: Let_def b64_char_plain)
next
  case (4 a b c rest)
  note bd = sextet_bounds [OF nat_of_char_less_256 [of a] nat_of_char_less_256 [of b] nat_of_char_less_256 [of c]]
  show ?case using bd "4.IH" by (simp add: Let_def b64_char_plain)
qed

lemma plain_char_neq:
  assumes "plain_char c"
  shows "c \<noteq> CHR 0x22" "c \<noteq> CHR 0x5C" "c \<noteq> CHR 0x08" "c \<noteq> CHR 0x0C"
    "c \<noteq> CHR 0x0A" "c \<noteq> CHR 0x0D" "c \<noteq> CHR 0x09"
  using assms by (auto simp: plain_char_def)

lemma escape_plain: "plain_char c \<Longrightarrow> escape_char c = [c]"
  by (simp add: plain_char_neq escape_char_def) (simp add: plain_char_def)

lemma dumps_string_plain: "list_all plain_char s \<Longrightarrow> dumps_string s = CHR 0x22 # s @ [CHR 0x22]"
  by (induction s) (auto simp: dumps_string_def escape_plain)

lemma scanstring_plain:
  "list_all plain_char s \<Longrightarrow> scanstring acc (s @ CHR 0x22 # rest) = Inr (acc @ s, rest)"
  by (induction s arbitrary: acc) (simp_all add: plain_char_neq, simp add: plain_char_def)

lemma skip_ws_nonws: "\<not> is_ws c \<Longrightarrow> skip_ws (c # cs) = c # cs"
  by (simp add: skip_ws_def)

lemma skip_ws_space: "skip_ws (CHR '' '' # cs) = skip_ws cs"
  by (simp add: skip_ws_def is_ws_def)

lemma scan_value_string:
  "list_all plain_char s \<Longrightarrow> scan_value (CHR 0x22 # s @ CHR 0x22 # rest) = Inr (JString s, rest)"
  using scanstring_plain [of s "[]" rest] by (simp add: scan_value_def)

lemma scan_value_int_32: "scan_value (''32'' @ CHR '','' # rest) = Inr (JInt 32, CHR '','' # rest)"
  by (simp add: scan_value_def scan_number_def is_digit_def)

lemma scan_value_int_n: "scan_value (''131072'' @ CHR '','' # rest) = Inr (JInt 131072, CHR '','' # rest)"
  by (simp add: scan_value_def scan_number_def is_digit_def)

lemma scan_value_int_8: "scan_value (''8'' @ CHR '','' # rest) = Inr (JInt 8, CHR '','' # rest)"
  by (simp add: scan_value_def scan_number_def is_digit_def)

lemma scan_value_int_1: "scan_value (''1'' @ CHR '','' # rest) = Inr (JInt 1, CHR '','' # rest)"
  by (simp add: scan_value_def scan_number_def is_digit_def)

lemma parse_members_next:
  assumes "list_all plain_char k" "skip_ws vt = vt"
    and "scan_value vt = Inr (v, CHR '','' # CHR '' '' # rest)"
  shows "parse_members acc (CHR 0x22 # k @ CHR 0x22 # CHR '':'' # CHR '' '' # vt)
    = parse_members (acc @ [(k, v)]) (skip_ws rest)"
  using assms scanstring_plain [of k "[]" "CHR '':'' # CHR '' '' # vt"]
  by (subst parse_members.simps) (simp add: skip_ws_nonws skip_ws_space is_ws_def)

lemma parse_members_last:
  assumes "list_all plain_char k" "skip_ws vt = vt"
    and "scan_value vt = Inr (v, CHR ''}'' # rest)"
  shows "parse_members acc (CHR 0x22 # k @ CHR 0x22 # CHR '':'' # CHR '' '' # vt)
    = Inr (acc @ [(k, v)], rest)"
  using assms scanstring_plain [of k "[]" "CHR '':'' # CHR '' '' # vt"]
  by (subst parse_members.simps) (simp add: skip_ws_nonws skip_ws_space is_ws_def)

lemma member_text_ws: "skip_ws (member_text k vt) = member_text k vt"
  by (simp add: member_text_def skip_ws_nonws is_ws_def)

lemma string_text_ws: "skip_ws (string_text k vt) = string_text k vt"
  by (simp add: string_text_def skip_ws_nonws is_ws_def)

lemma plain_literals:
  "list_all plain_char ''salt''" "list_all plain_char ''length''" "list_all plain_char ''n''"
  "list_all plain_char ''r''" "list_all plain_char ''p''" "list_all plain_char ''ciphertext_b64''"
  by (simp_all add: plain_char_def)

lemma char_of_digits:
  "char_of (48::nat) = CHR ''0''" "char_of (49::nat) = CHR ''1''" "char_of (50::nat) = CHR ''2''"
  "char_of (51::nat) = CHR ''3''" "char_of (52::nat) = CHR ''4''" "char_of (53::nat) = CHR ''5''"
  "char_of (54::nat) = CHR ''6''" "char_of (55::nat) = CHR ''7''" "char_of (56::nat) = CHR ''8''"
  "char_of (57::nat) = CHR ''9''"
  by (rule of_char_eqI [where ?'a = nat, THEN sym], simp)+

lemma digits_consts:
  "digits 32 = ''32''" "digits 131072 = ''131072''" "digits 8 = ''8''" "digits 1 = ''1''"
  "digits (Suc 0) = ''1''"
  by (simp_all add: char_of_digits)

lemma json_dumps_envelope:
  assumes "list_all plain_char s" "list_all plain_char c"
  shows "json_dumps (envelope_message s c) =
    CHR ''{'' # member_text ''salt'' (string_text s ('', '' @
      member_text ''length'' (''32'' @ '', '' @
      member_text ''n'' (''131072'' @ '', '' @
      member_text ''r'' (''8'' @ '', '' @
      member_text ''p'' (''1'' @ '', '' @
      member_text ''ciphertext_b64'' (string_text c ''}'')))))))"
  using assms plain_literals
  by (simp add: envelope_message_def member_text_def string_text_def dumps_string_plain
      dumps_int_def digits_consts del: digits.simps)

lemma parse_envelope_members:
  assumes "list_all plain_char s" "list_all plain_char c"
  shows "parse_members [] (member_text ''salt'' (string_text s ('', '' @
      member_text ''length'' (''32'' @ '', '' @
      member_text ''n'' (''131072'' @ '', '' @
      member_text ''r'' (''8'' @ '', '' @
      member_text ''p'' (''1'' @ '', '' @
      member_text ''ciphertext_b64'' (string_text c (CHR ''}'' # rest)))))))))
    = Inr ([(''salt'', JString s), (''length'', JInt 32), (''n'', JInt 131072),
      (''r'', JInt 8), (''p'', JInt 1), (''ciphertext_b64'', JString c)], rest)"
proof -
  define t6 where "t6 = member_text ''ciphertext_b64'' (string_text c (CHR ''}'' # rest))"
  define t5 where "t5 = member_text ''p'' (''1'' @ '', '' @ t6)"
  define t4 where "t4 = member_text ''r'' (''8'' @ '', '' @ t5)"
  define t3 where "t3 = member_text ''n'' (''131072'' @ '', '' @ t4)"
  define t2 where "t2 = member_text ''length'' (''32'' @ '', '' @ t3)"
  have ws: "skip_ws t6 = t6" "skip_ws t5 = t5" "skip_ws t4 = t4" "skip_ws t3 = t3" "skip_ws t2 = t2"
    by (simp_all add: t6_def t5_def t4_def t3_def t2_def member_text_ws)
  have nws: "\<And>x. skip_ws (''32'' @ x) = ''32'' @ x" "\<And>x. skip_ws (''131072'' @ x) = ''131072'' @ x"
    "\<And>x. skip_ws (''8'' @ x) = ''8'' @ x" "\<And>x. skip_ws (''1'' @ x) = ''1'' @ x"
    by (simp_all add: skip_ws_nonws is_ws_def)
  have "parse_members [] (member_text ''salt'' (string_text s ('', '' @ t2)))
      = parse_members [(''salt'', JString s)] t2"
    using parse_members_next [OF plain_literals(1) string_text_ws, of s "'', '' @ t2" "JString s" t2 "[]"]
      scan_value_string [OF assms(1), of "'', '' @ t2"]
    by (simp add: member_text_def [of "''salt''"] string_text_def ws)
  also have "\<dots> = parse_members [(''salt'', JString s), (''length'', JInt 32)] t3"
    unfolding t2_def
    using parse_members_next [OF plain_literals(2) nws(1), of "'', '' @ t3" "JInt 32" t3 "[(''salt'', JString s)]"]
      scan_value_int_32 [of "CHR '' '' # t3"]
    by (simp add: member_text_def [of "''length''"] ws)
  also have "\<dots> = parse_members [(''salt'', JString s), (''length'', JInt 32), (''n'', JInt 131072)] t4"
    unfolding t3_def
    using parse_members_next [OF plain_literals(3) nws(2), of "'', '' @ t4" "JInt 131072" t4
        "[(''salt'', JString s), (''length'', JInt 32)]"]
      scan_value_int_n [of "CHR '' '' # t4"]
    by (simp add: member_text_def [of "''n''"] ws)
  also have "\<dots> = parse_members [(''salt'', JString s), (''length'', JInt 32), (''n'', JInt 131072),
      (''r'', JInt 8)] t5"
    unfolding t4_def
    using parse_members_next [OF plain_literals(4) nws(3), of "'', '' @ t5" "JInt 8" t5
        "[(''salt'', JString s), (''length'', JInt 32), (''n'', JInt 131072)]"]
      scan_value_int_8 [of "CHR '' '' # t5"]
    by (simp add: member_text_def [of "''r''"] ws)
  also have "\<dots> = parse_members [(''salt'', JString s), (''length'', JInt 32), (''n'', JInt 131072),
      (''r'', JInt 8), (''p'', JInt 1)] t6"
    unfolding t5_def
    using parse_members_next [OF plain_literals(5) nws(4), of "'', '' @ t6" "JInt 1" t6
        "[(''salt'', JString s), (''length'', JInt 32), (''n'', JInt 131072), (''r'', JInt 8)]"]
      scan_value_int_1 [of "CHR '' '' # t6"]
    by (simp add: member_text_def [of "''p''"] ws)
  also have "\<dots> = Inr ([(''salt'', JString s), (''length'', JInt 32), (''n'', JInt 131072),
      (''r'', JInt 8), (''p'', JInt 1), (''ciphertext_b64'', JString c)], rest)"
    unfolding t6_def
    using parse_members_last [OF plain_literals(6) string_text_ws, of c "CHR ''}'' # rest" "JString c" rest
        "[(''salt'', JString s), (''length'', JInt 32), (''n'', JInt 131072), (''r'', JInt 8), (''p'', JInt 1)]"]
      scan_value_string [OF assms(2), of "CHR ''}'' # rest"]
    by (simp add: member_text_def [of "''ciphertext_b64''"] string_text_def)
  finally show ?thesis
    by (simp only: t2_def t3_def t4_def t5_def t6_def)
qed

lemma plain_not_bad:
  "list_all plain_char s \<Longrightarrow>
     \<not> list_ex (\<lambda>c. (of_char c :: nat) \<ge> 128 \<or> (of_char c :: nat) = 0) s"
  by (induction s) (auto simp: plain_char_def)

lemma json_loads_envelope:
  assumes "list_all plain_char s" "list_all plain_char c"
  shows "json_loads (json_dumps (envelope_message s c)) = Inr (envelope_message s c)"
proof -
  define body where "body = member_text ''salt'' (string_text s ('', '' @
      member_text ''length'' (''32'' @ '', '' @
      member_text ''n'' (''131072'' @ '', '' @
      member_text ''r'' (''8'' @ '', '' @
      member_text ''p'' (''1'' @ '', '' @
      member_text ''ciphertext_b64'' (string_text c ''}'')))))))"
  have d: "json_dumps (envelope_message s c) = CHR ''{'' # body"
    unfolding body_def by (rule json_dumps_envelope [OF assms])
  have p: "parse_members [] body = Inr ([(''salt'', JString s), (''length'', JInt 32),
      (''n'', JInt 131072), (''r'', JInt 8), (''p'', JInt 1), (''ciphertext_b64'', JString c)], [])"
    unfolding body_def using parse_envelope_members [OF assms, of "[]"] by simp
  have b: "\<not> list_ex (\<lambda>c. (of_char c :: nat) \<ge> 128 \<or> (of_char c :: nat) = 0) (CHR ''{'' # body)"
    using plain_not_bad [OF assms(1)] plain_not_bad [OF assms(2)]
    by (simp add: body_def member_text_def string_text_def)
  obtain d ds where ds: "body = d # ds" "d = CHR 0x22"
    by (simp add: body_def member_text_def)
  have w: "skip_ws (CHR ''{'' # body) = CHR ''{'' # body" "skip_ws body = body"
    by (simp_all add: skip_ws_nonws is_ws_def ds)
  show ?thesis
    unfolding d json_loads_def using b p
    by (simp add: w) (simp add: ds finish_loads_def skip_ws_def envelope_message_def)
qed

subsection \<open>Steps of \<open>decrypt_file\<close>\<close>

lemma bind_r_Inr: "bind_r x f = Inr y \<Longrightarrow> \<exists>a. x = Inr a \<and> f a = Inr y"
  by (cases x) simp_all

lemma Fernet_Inr: "Fernet (urlsafe_b64encode k) = Inr f \<Longrightarrow> length k = 32"
  by (simp add: Fernet_def urlsafe_b64_roundtrip split: if_splits)

lemma derive_length:
  assumes "crypto_contract cr" "derive cr kdf pw = Inr k" "kdf_length kdf = JInt l"
  shows "int (length k) = l"
proof -
  from assms(2,3) have "scrypt_derive cr pw (kdf_salt kdf) l (kdf_n kdf) (kdf_r kdf) (kdf_p kdf) = Some k"
    by (simp add: derive_def py_int_def split: option.splits)
  with assms(1) show ?thesis unfolding crypto_contract_def by blast
qed

lemma Scrypt_length: "Scrypt salt l n r p = Inr kdf \<Longrightarrow> kdf_length kdf = l"
  by (auto simp: Scrypt_def split: option.splits if_splits)

lemma demo_crypto_contract: "crypto_contract demo_crypto"
  by (auto simp: crypto_contract_def demo_crypto_def split: if_splits)

lemma short_key_envelope_loads:
  "json_loads short_key_envelope = Inr (JObject
     [(''salt'', JString ''AAAA''), (''length'', JInt 16), (''n'', JInt 2), (''r'', JInt 1),
      (''p'', JInt 1), (''ciphertext_b64'', JString ''AAAA'')])"
  by code_simp

lemma os_urandom_length: "length (fst (os_urandom k e)) = k"
  by (simp add: os_urandom_def)

lemma pkcs7_pad_length: "length (pkcs7_pad m) mod 16 = 0" "pkcs7_pad m \<noteq> []"
proof -
  have "(length m + (16 - length m mod 16)) mod 16 = 0"
    by presburger
  then show "length (pkcs7_pad m) mod 16 = 0"
    by (simp add: pkcs7_pad_def Let_def)
  have "16 - length m mod 16 > 0" by simp
  then show "pkcs7_pad m \<noteq> []"
    by (auto simp: pkcs7_pad_def Let_def)
qed

lemma pkcs7_unpad_pad: "pkcs7_unpad (pkcs7_pad m) = Some m"
proof -
  define k where "k = 16 - length m mod 16"
  have k: "0 < k" "k \<le> 16" by (simp_all add: k_def)
  have p: "pkcs7_pad m = m @ replicate k (char_of k)"
    by (simp add: pkcs7_pad_def k_def Let_def)
  have l: "last (pkcs7_pad m) = char_of k"
    using k by (simp add: p)
  have o: "(of_char (char_of k :: char) :: nat) = k"
    using k by simp
  have m16: "length (pkcs7_pad m) mod 16 = 0" and ne: "pkcs7_pad m \<noteq> []"
    by (rule pkcs7_pad_length)+
  show ?thesis
    unfolding pkcs7_unpad_def l o Let_def using k m16 ne
    by (simp add: p)
qed

lemma Scrypt_defaults:
  "Scrypt salt (JInt 32) (JInt (2 ^ 17)) (JInt 8) (JInt 1) =
     Inr \<lparr>kdf_salt = salt, kdf_length = JInt 32, kdf_n = 131072, kdf_r = 8, kdf_p = 1\<rparr>"
  by (simp add: Scrypt_def py_int_def)

lemma Fernet_key:
  "length k = 32 \<Longrightarrow>
     Fernet (urlsafe_b64encode k) = Inr \<lparr>signing_key = take 16 k, encryption_key = drop 16 k\<rparr>"
  by (simp add: Fernet_def urlsafe_b64_roundtrip)

lemma int_to_bytes8_length: "int_to_bytes8 t = Inr ts \<Longrightarrow> length ts = 8"
  by (auto simp: int_to_bytes8_def Let_def split: if_splits)

lemma contract_scrypt:
  "crypto_contract cr \<Longrightarrow> scrypt_derive cr pw salt l n r p = Some k \<Longrightarrow> int (length k) = l"
  unfolding crypto_contract_def by blast

lemma contract_aes:
  assumes "crypto_contract cr" "length k = 16" "length iv = 16" "length m mod 16 = 0"
  shows "length (aes128_cbc_encrypt cr k iv m) = length m"
    and "aes128_cbc_decrypt cr k iv (aes128_cbc_encrypt cr k iv m) = m"
  using assms unfolding crypto_contract_def by auto

lemma contract_hmac: "crypto_contract cr \<Longrightarrow> length (hmac_sha256 cr k m) = 32"
  unfolding crypto_contract_def by blast

lemma fernet_encrypt_eq:
  "int_to_bytes8 (clock w) = Inr ts \<Longrightarrow>
   fernet_encrypt cr f w data = Inr (fernet_token cr f ts (fst (os_urandom 16 (entropy w))) data)"
  by (simp add: fernet_encrypt_def fernet_token_def fernet_parts_def Let_def)

lemma fernet_decrypt_token:
  assumes c: "crypto_contract cr"
    and ek: "length (encryption_key f) = 16"
    and ts: "length ts = 8"
    and iv: "length iv = 16"
  shows "fernet_decrypt cr f (fernet_token cr f ts iv data) = Inr data"
proof -
  define ct where "ct = aes128_cbc_encrypt cr (encryption_key f) iv (pkcs7_pad data)"
  define basic where "basic = fernet_parts cr f ts iv data"
  define tag where "tag = hmac_sha256 cr (signing_key f) basic"
  have aes: "length ct = length (pkcs7_pad data)"
    "aes128_cbc_decrypt cr (encryption_key f) iv ct = pkcs7_pad data"
    unfolding ct_def by (rule contract_aes [OF c ek iv pkcs7_pad_length(1)])+
  have tag: "length tag = 32"
    unfolding tag_def by (rule contract_hmac [OF c])
  have b: "basic = CHR 0x80 # ts @ iv @ ct"
    by (simp add: basic_def fernet_parts_def ct_def)
  have dec: "urlsafe_b64decode (fernet_token cr f ts iv data) = Inr (basic @ tag)"
    by (simp add: fernet_token_def urlsafe_b64_roundtrip basic_def tag_def)
  have s1: "take (length (basic @ tag) - 32) (basic @ tag) = basic"
    "drop (length (basic @ tag) - 32) (basic @ tag) = tag"
    using tag by simp_all
  have s2: "take 16 (drop 9 (basic @ tag)) = iv"
    using ts iv by (simp add: b)
  have s3: "drop 25 basic = ct"
    using ts iv by (simp add: b)
  have s4: "basic @ tag \<noteq> []" "hd (basic @ tag) = CHR 0x80" "\<not> length (basic @ tag) < 9"
    using ts by (simp_all add: b)
  show ?thesis
    unfolding fernet_decrypt_def dec sum.case Let_def s1 s2 s3
    using s4 iv aes pkcs7_pad_length(1) [of data]
    by (simp add: tag_def pkcs7_unpad_pad)
qed

lemma drawn_lengths: "length (drawn_salt w) = 32" "length (drawn_iv w) = 16"
  by (simp_all add: drawn_salt_def drawn_iv_def os_urandom_length)

lemma derive_defaults:
  "derive cr \<lparr>kdf_salt = salt, kdf_length = JInt 32, kdf_n = 131072, kdf_r = 8, kdf_p = 1\<rparr> pw =
     (case scrypt_derive cr pw salt 32 131072 8 1 of None \<Rightarrow> Inl ScryptDeriveError | Some k \<Rightarrow> Inr k)"
  by (simp add: derive_def py_int_def)

lemma encrypt_file_eq:
  assumes pw: "str_encode password = Inr pw"
    and dk: "scrypt_derive cr pw (drawn_salt w) 32 131072 8 1 = Some k"
    and len: "length k = 32"
    and ts: "int_to_bytes8 (clock w) = Inr ts"
  shows "encrypt_file cr w password data =
    Inr (sealed_envelope cr (drawn_salt w) k ts (drawn_iv w) data)"
proof -
  have fe: "fernet_encrypt cr (key_pair k) (w\<lparr>entropy := snd (os_urandom 32 (entropy w))\<rparr>) data
     = Inr (fernet_token cr (key_pair k) ts (drawn_iv w) data)"
    using fernet_encrypt_eq [of "w\<lparr>entropy := snd (os_urandom 32 (entropy w))\<rparr>" ts cr "key_pair k" data] ts
    by (simp add: drawn_iv_def)
  show ?thesis
    unfolding encrypt_file_def Let_def drawn_salt_def [symmetric] Scrypt_defaults bind_r.simps
      pw derive_defaults
    using dk len fe
    by (simp add: Fernet_key key_pair_def [symmetric] sealed_envelope_def envelope_message_def)
qed

lemma getitem_envelope:
  "getitem (envelope_message s c) ''salt'' = Inr (JString s)"
  "getitem (envelope_message s c) ''length'' = Inr (JInt 32)"
  "getitem (envelope_message s c) ''n'' = Inr (JInt 131072)"
  "getitem (envelope_message s c) ''r'' = Inr (JInt 8)"
  "getitem (envelope_message s c) ''p'' = Inr (JInt 1)"
  "getitem (envelope_message s c) ''ciphertext_b64'' = Inr (JString c)"
  by (simp_all add: getitem_def envelope_message_def)

lemma decrypt_file_sealed:
  assumes c: "crypto_contract cr"
    and pw: "str_encode password = Inr pw"
    and dk: "scrypt_derive cr pw salt 32 131072 8 1 = Some k"
    and ts: "length ts = 8"
    and iv: "length iv = 16"
  shows "decrypt_file cr password (sealed_envelope cr salt k ts iv data) = Inr data"
proof -
  have len: "length k = 32"
    using contract_scrypt [OF c dk] by simp
  have ek: "length (encryption_key (key_pair k)) = 16"
    using len by (simp add: key_pair_def)
  have l: "json_loads (sealed_envelope cr salt k ts iv data)
      = Inr (envelope_message (urlsafe_b64encode salt)
          (urlsafe_b64encode (fernet_token cr (key_pair k) ts iv data)))"
    unfolding sealed_envelope_def
    by (rule json_loads_envelope) (rule urlsafe_b64encode_plain)+
  show ?thesis
    unfolding decrypt_file_def l bind_r.simps getitem_envelope jstr_encode_def jvalue.case
      urlsafe_b64_roundtrip Scrypt_defaults [simplified] pw derive_defaults Let_def
    using dk fernet_decrypt_token [OF c ek ts iv, of data]
    by (simp add: Fernet_key [OF len] key_pair_def)
qed

lemma int_to_bytes8_ok: "0 \<le> t \<Longrightarrow> t < 2 ^ 64 \<Longrightarrow> \<exists>ts. int_to_bytes8 t = Inr ts"
  by (simp add: int_to_bytes8_def Let_def)

lemma demo_password: "str_encode [112, 119] = Inr [char_of (112 :: nat), char_of (119 :: nat)]"
  by (simp add: utf8_char_def)

lemma demo_derive: "scrypt_derive demo_crypto pw salt 32 131072 8 1 \<noteq> None"
  by (simp add: demo_crypto_def)

lemma bind_r_assoc: "bind_r (bind_r x f) g = bind_r x (\<lambda>a. bind_r (f a) g)"
  by (cases x) simp_all

lemma encrypt_file_via_key:
  "encrypt_file cr w password file_bytes =
     bind_r (encrypt_symmetric_key cr w password) (\<lambda>symmetric_key.
     bind_r (Fernet symmetric_key) (\<lambda>f.
     bind_r (fernet_encrypt cr f (w\<lparr>entropy := snd (os_urandom 32 (entropy w))\<rparr>) file_bytes)
       (\<lambda>ciphertext.
     Inr (json_dumps (envelope_message (urlsafe_b64encode (drawn_salt w))
        (urlsafe_b64encode ciphertext))))))"
  by (simp add: encrypt_file_def encrypt_symmetric_key_def Let_def bind_r_assoc
      envelope_message_def drawn_salt_def)

lemma decrypt_file_via_key:
  "decrypt_file cr password file_bytes =
     bind_r (decrypt_symmetric_key cr password file_bytes) (\<lambda>symmetric_key.
     bind_r (json_loads file_bytes) (\<lambda>encrypted_message.
     bind_r (getitem encrypted_message ''ciphertext_b64'') (\<lambda>ciphertext_field.
     bind_r (jstr_encode ciphertext_field) (\<lambda>ciphertext_b64.
     bind_r (urlsafe_b64decode ciphertext_b64) (\<lambda>ciphertext.
     bind_r (Fernet symmetric_key) (\<lambda>f.
     fernet_decrypt cr f ciphertext))))))"
proof (cases "json_loads file_bytes")
  case (Inl e)
  then show ?thesis by (simp add: decrypt_file_def decrypt_symmetric_key_def)
next
  case (Inr msg)
  then show ?thesis
    by (simp add: decrypt_file_def decrypt_symmetric_key_def Let_def bind_r_assoc)
qed

lemma encrypt_symmetric_key_eq:
  "encrypt_symmetric_key cr w password =
     bind_r (str_encode password) (\<lambda>pw.
       case scrypt_derive cr pw (drawn_salt w) 32 131072 8 1 of
         None \<Rightarrow> Inl ScryptDeriveError
       | Some k \<Rightarrow> Inr (urlsafe_b64encode k))"
  unfolding encrypt_symmetric_key_def Let_def drawn_salt_def [symmetric] Scrypt_defaults
    bind_r.simps derive_defaults
  by (cases "str_encode password") (simp_all split: option.splits)

lemma encrypt_file_inversion:
  assumes "encrypt_file cr w password data = Inr envelope"
  shows "\<exists>pw k ts. str_encode password = Inr pw
     \<and> scrypt_derive cr pw (drawn_salt w) 32 131072 8 1 = Some k \<and> length k = 32
     \<and> int_to_bytes8 (clock w) = Inr ts
     \<and> encrypt_symmetric_key cr w password = Inr (urlsafe_b64encode k)
     \<and> envelope = sealed_envelope cr (drawn_salt w) k ts (drawn_iv w) data"
proof -
  from assms obtain key f ct where
    key: "encrypt_symmetric_key cr w password = Inr key" and f: "Fernet key = Inr f"
    and ct: "fernet_encrypt cr f (w\<lparr>entropy := snd (os_urandom 32 (entropy w))\<rparr>) data = Inr ct"
    unfolding encrypt_file_via_key by (auto dest!: bind_r_Inr)
  from key obtain pw k where pw: "str_encode password = Inr pw"
    and k: "scrypt_derive cr pw (drawn_salt w) 32 131072 8 1 = Some k"
    and kk: "key = urlsafe_b64encode k"
    unfolding encrypt_symmetric_key_eq by (auto dest!: bind_r_Inr split: option.splits)
  have len: "length k = 32"
    using f kk Fernet_Inr by blast
  from ct obtain ts where ts: "int_to_bytes8 (clock w) = Inr ts"
    by (auto simp: fernet_encrypt_def Let_def dest!: bind_r_Inr)
  have "encrypt_file cr w password data
      = Inr (sealed_envelope cr (drawn_salt w) k ts (drawn_iv w) data)"
    by (rule encrypt_file_eq [OF pw k len ts])
  with assms have "envelope = sealed_envelope cr (drawn_salt w) k ts (drawn_iv w) data"
    by simp
  with pw k len ts key kk show ?thesis by blast
qed

lemma sealed_envelope_loads:
  "json_loads (sealed_envelope cr salt k ts iv data)
      = Inr (envelope_message (urlsafe_b64encode salt)
          (urlsafe_b64encode (fernet_token cr (key_pair k) ts iv data)))"
  unfolding sealed_envelope_def
  by (rule json_loads_envelope) (rule urlsafe_b64encode_plain)+


lemma demo_encrypt:
  "\<exists>envelope. encrypt_file demo_crypto demo_world [112, 119] data = Inr envelope"
proof -
  obtain ts where ts: "int_to_bytes8 (clock demo_world) = Inr ts"
    using int_to_bytes8_ok [of "clock demo_world"] by (auto simp: demo_world_def)
  obtain k where k: "scrypt_derive demo_crypto [char_of (112 :: nat), char_of (119 :: nat)]
       (drawn_salt demo_world) 32 131072 8 1 = Some k"
    using demo_derive by blast
  have len: "length k = 32"
    using contract_scrypt [OF demo_crypto_contract k] by simp
  show ?thesis
    using encrypt_file_eq [OF demo_password k len ts] by blast
qed

lemma drawn_salt_entropy: "drawn_salt w = map (entropy w) [0..<32]"
  by (simp add: drawn_salt_def os_urandom_def)

lemma fernet_token_iv:
  assumes "length ts = 8" "length iv = 16"
  shows "urlsafe_b64decode (fernet_token cr f ts iv data) = Inr d \<Longrightarrow> take 16 (drop 9 d) = iv"
  using assms by (auto simp: fernet_token_def fernet_parts_def urlsafe_b64_roundtrip)

lemma fernet_token_differs:
  assumes "length ts1 = 8" "length iv1 = 16" "length ts2 = 8" "length iv2 = 16" "iv1 \<noteq> iv2"
  shows "fernet_token cr f1 ts1 iv1 d1 \<noteq> fernet_token cr f2 ts2 iv2 d2"
proof
  assume eq: "fernet_token cr f1 ts1 iv1 d1 = fernet_token cr f2 ts2 iv2 d2"
  obtain d where d: "urlsafe_b64decode (fernet_token cr f1 ts1 iv1 d1) = Inr d"
    by (simp add: fernet_token_def urlsafe_b64_roundtrip)
  have "take 16 (drop 9 d) = iv1"
    by (rule fernet_token_iv [OF assms(1,2) d])
  moreover have "take 16 (drop 9 d) = iv2"
    using d unfolding eq by (rule fernet_token_iv [OF assms(3,4)])
  ultimately show False using assms(5) by simp
qed

lemma demo_worlds_differ:
  "drawn_salt demo_world \<noteq> drawn_salt demo_world2" "drawn_iv demo_world \<noteq> drawn_iv demo_world2"
proof -
  have "hd (drawn_salt demo_world) \<noteq> hd (drawn_salt demo_world2)"
    by (simp add: drawn_salt_def os_urandom_def demo_world_def demo_world2_def upt_rec)
  then show "drawn_salt demo_world \<noteq> drawn_salt demo_world2" by auto
  have "hd (drawn_iv demo_world) \<noteq> hd (drawn_iv demo_world2)"
    by (simp add: drawn_iv_def os_urandom_def demo_world_def demo_world2_def upt_rec)
  then show "drawn_iv demo_world \<noteq> drawn_iv demo_world2" by auto
qed

lemma demo_encrypt2:
  "\<exists>envelope. encrypt_file demo_crypto demo_world2 [112, 119] data = Inr envelope"
proof -
  obtain ts where ts: "int_to_bytes8 (clock demo_world2) = Inr ts"
    using int_to_bytes8_ok [of "clock demo_world2"] by (auto simp: demo_world2_def)
  obtain k where k: "scrypt_derive demo_crypto [char_of (112 :: nat), char_of (119 :: nat)]
       (drawn_salt demo_world2) 32 131072 8 1 = Some k"
    using demo_derive by blast
  have len: "length k = 32"
    using contract_scrypt [OF demo_crypto_contract k] by simp
  show ?thesis
    using encrypt_file_eq [OF demo_password k len ts] by blast
qed

lemma urlsafe_b64encode_length: "length (urlsafe_b64encode bs) = 4 * ((length bs + 2) div 3)"
proof (induction bs rule: urlsafe_b64encode.induct)
  case (4 a b c rest)
  have "(length (a # b # c # rest) + 2) div 3 = (length rest + 2) div 3 + 1"
    by simp
  moreover have "length (urlsafe_b64encode (a # b # c # rest))
      = 4 + length (urlsafe_b64encode rest)"
    by (simp add: Let_def)
  moreover have "length (urlsafe_b64encode rest) = 4 * ((length rest + 2) div 3)"
    by (rule "4.IH") (rule refl)+
  ultimately show ?case by (simp only:) simp
qed (simp_all add: Let_def)

lemma b64_char_url: "i < 64 \<Longrightarrow> b64url_char (b64_char i)"
  by (auto simp: b64url_char_def)

lemma pad_url: "b64url_char CHR ''=''"
  by (simp add: b64url_char_def)

lemma urlsafe_b64encode_padded:
  "length bs mod 3 \<noteq> 0 \<Longrightarrow> last (urlsafe_b64encode bs) = CHR ''=''"
proof (induction bs rule: urlsafe_b64encode.induct)
  case (4 a b c rest)
  then have "rest \<noteq> []" by auto
  then have "urlsafe_b64encode rest \<noteq> []"
    using urlsafe_b64encode_length [of rest] by (cases rest) auto
  with 4 show ?case by (simp add: Let_def)
qed (simp_all add: Let_def)

lemma urlsafe_b64encode_alphabet: "list_all b64url_char (urlsafe_b64encode bs)"
proof (induction bs rule: urlsafe_b64encode.induct)
  case 1
  show ?case by simp
next
  case (2 a)
  note b = sextet_bounds [OF nat_of_char_less_256 [of a] nat_of_char_less_256 [of a] nat_of_char_less_256 [of a]]
  show ?case using b by (simp add: Let_def b64_char_url pad_url)
next
  case (3 a b)
  note bd = sextet_bounds [OF nat_of_char_less_256 [of a] nat_of_char_less_256 [of b] nat_of_char_less_256 [of b]]
  show ?case using bd by (simp add: Let_def b64_char_url pad_url)
next
  case (4 a b c rest)
  note bd = sextet_bounds [OF nat_of_char_less_256 [of a] nat_of_char_less_256 [of b] nat_of_char_less_256 [of c]]
  show ?case using bd "4.IH" by (simp add: Let_def b64_char_url pad_url)
qed

lemma salt_field_shape:
  "length salt = 32 \<Longrightarrow>
     length (urlsafe_b64encode salt) = 44 \<and> last (urlsafe_b64encode salt) = CHR ''=''
     \<and> CHR ''='' \<in> set (urlsafe_b64encode salt)"
proof -
  assume l: "length salt = 32"
  have n: "length (urlsafe_b64encode salt) = 44"
    using l by (simp add: urlsafe_b64encode_length)
  have p: "last (urlsafe_b64encode salt) = CHR ''=''"
    using l by (simp add: urlsafe_b64encode_padded)
  have "urlsafe_b64encode salt \<noteq> []" using n by auto
  then have "last (urlsafe_b64encode salt) \<in> set (urlsafe_b64encode salt)"
    by (rule last_in_set)
  with n p show ?thesis by simp
qed

lemma and_pred_even: "(2 * m) AND (2 * m - 1) = 2 * (m AND (m - 1))" for m :: int
proof -
  have "(2 * m - 1) div 2 = m - 1" by simp
  then show ?thesis
    by (subst and_int_rec) simp
qed

lemma and_pred_odd: "(2 * m + 1) AND (2 * m + 1 - 1) = 2 * m" for m :: int
  by (subst and_int_rec) simp

lemma and_pred_zero_power2:
  "2 \<le> n \<Longrightarrow> n AND (n - 1) = 0 \<Longrightarrow> \<exists>k. n = 2 ^ k" for n :: int
proof (induction "nat n" arbitrary: n rule: less_induct)
  case less
  show ?case
  proof (cases "even n")
    case True
    then obtain m where m: "n = 2 * m" by (auto elim: evenE)
    with less.prems have mz: "m AND (m - 1) = 0" and m1: "1 \<le> m"
      by (simp_all add: and_pred_even)
    show ?thesis
    proof (cases "m = 1")
      case True
      with m have "n = 2 ^ 1" by simp
      then show ?thesis by blast
    next
      case False
      with m1 have "2 \<le> m" by simp
      moreover have "nat m < nat n" using m m1 by simp
      ultimately obtain k where "m = 2 ^ k"
        using less.hyps [of m] mz by blast
      with m have "n = 2 ^ Suc k" by simp
      then show ?thesis by blast
    qed
  next
    case False
    then obtain m where m: "n = 2 * m + 1" by (auto elim: oddE)
    with less.prems have "2 * m = 0"
      using and_pred_odd [of m] by simp
    with m less.prems show ?thesis by simp
  qed
qed

lemma odd_n_envelope_loads:
  "json_loads odd_n_envelope = Inr (JObject
     [(''salt'', JString ''AAAA''), (''length'', JInt 32), (''n'', JInt 3), (''r'', JInt 8),
      (''p'', JInt 1), (''ciphertext_b64'', JString ''AAAA'')])"
  by (simp add: odd_n_envelope_def json_loads_def skip_ws_def is_ws_def scan_value_def
      scan_number_def is_digit_def finish_loads_def)

lemma huge_cost_envelope_loads:
  "json_loads huge_cost_envelope = Inr (JObject
     [(''salt'', JString ''AAAA''), (''length'', JInt 32), (''n'', JInt 1073741824),
      (''r'', JInt 64), (''p'', JInt 64), (''ciphertext_b64'', JString ''AAAA'')])"
  by (simp add: huge_cost_envelope_def json_loads_def skip_ws_def is_ws_def scan_value_def
      scan_number_def is_digit_def finish_loads_def)

lemma power2_and_pred: "(2 :: int) ^ k AND (2 ^ k - 1) = 0"
  by (rule bit_eqI) (auto simp: bit_simps mask_eq_exp_minus_1 [symmetric])

lemma decrypt_file_fields:
  assumes "json_loads file_bytes = Inr msg"
    and "getitem msg ''salt'' = Inr (JString s)"
    and "urlsafe_b64decode s = Inr salt"
    and "getitem msg ''length'' = Inr l"
    and "getitem msg ''n'' = Inr n"
    and "getitem msg ''r'' = Inr r"
    and "getitem msg ''p'' = Inr p"
  shows "decrypt_file cr password file_bytes =
     bind_r (Scrypt salt l n r p) (\<lambda>kdf.
     bind_r (str_encode password) (\<lambda>key_material.
     bind_r (derive cr kdf key_material) (\<lambda>derived.
     bind_r (getitem msg ''ciphertext_b64'') (\<lambda>ciphertext_field.
     bind_r (jstr_encode ciphertext_field) (\<lambda>ciphertext_b64.
     bind_r (urlsafe_b64decode ciphertext_b64) (\<lambda>ciphertext.
     bind_r (Fernet (urlsafe_b64encode derived)) (\<lambda>f.
     fernet_decrypt cr f ciphertext)))))))"
  using assms by (simp add: decrypt_file_def jstr_encode_def Let_def)

lemma char_of_0: "char_of (0 :: nat) = CHR 0x00"
  by (rule of_char_eqI [where ?'a = nat, THEN sym]) simp

lemma decode_AAAA: "urlsafe_b64decode ''AAAA'' = Inr [CHR 0x00, CHR 0x00, CHR 0x00]"
  by (simp add: urlsafe_b64decode_def b64_value_def char_of_0)

lemma odd_n_fields:
  "getitem (JObject
     [(''salt'', JString ''AAAA''), (''length'', JInt 32), (''n'', JInt 3), (''r'', JInt 8),
      (''p'', JInt 1), (''ciphertext_b64'', JString ''AAAA'')]) ''salt'' = Inr (JString ''AAAA'')"
  "getitem (JObject
     [(''salt'', JString ''AAAA''), (''length'', JInt 32), (''n'', JInt 3), (''r'', JInt 8),
      (''p'', JInt 1), (''ciphertext_b64'', JString ''AAAA'')]) ''length'' = Inr (JInt 32)"
  "getitem (JObject
     [(''salt'', JString ''AAAA''), (''length'', JInt 32), (''n'', JInt 3), (''r'', JInt 8),
      (''p'', JInt 1), (''ciphertext_b64'', JString ''AAAA'')]) ''n'' = Inr (JInt 3)"
  "getitem (JObject
     [(''salt'', JString ''AAAA''), (''length'', JInt 32), (''n'', JInt 3), (''r'', JInt 8),
      (''p'', JInt 1), (''ciphertext_b64'', JString ''AAAA'')]) ''r'' = Inr (JInt 8)"
  "getitem (JObject
     [(''salt'', JString ''AAAA''), (''length'', JInt 32), (''n'', JInt 3), (''r'', JInt 8),
      (''p'', JInt 1), (''ciphertext_b64'', JString ''AAAA'')]) ''p'' = Inr (JInt 1)"
  by (simp_all add: getitem_def)

lemma huge_cost_fields:
  "getitem (JObject
     [(''salt'', JString ''AAAA''), (''length'', JInt 32), (''n'', JInt 1073741824),
      (''r'', JInt 64), (''p'', JInt 64), (''ciphertext_b64'', JString ''AAAA'')]) ''salt''
    = Inr (JString ''AAAA'')"
  "getitem (JObject
     [(''salt'', JString ''AAAA''), (''length'', JInt 32), (''n'', JInt 1073741824),
      (''r'', JInt 64), (''p'', JInt 64), (''ciphertext_b64'', JString ''AAAA'')]) ''length''
    = Inr (JInt 32)"
  "getitem (JObject
     [(''salt'', JString ''AAAA''), (''length'', JInt 32), (''n'', JInt 1073741824),
      (''r'', JInt 64), (''p'', JInt 64), (''ciphertext_b64'', JString ''AAAA'')]) ''n''
    = Inr (JInt 1073741824)"
  "getitem (JObject
     [(''salt'', JString ''AAAA''), (''length'', JInt 32), (''n'', JInt 1073741824),
      (''r'', JInt 64), (''p'', JInt 64), (''ciphertext_b64'', JString ''AAAA'')]) ''r''
    = Inr (JInt 64)"
  "getitem (JObject
     [(''salt'', JString ''AAAA''), (''length'', JInt 32), (''n'', JInt 1073741824),
      (''r'', JInt 64), (''p'', JInt 64), (''ciphertext_b64'', JString ''AAAA'')]) ''p''
    = Inr (JInt 64)"
  "getitem (JObject
     [(''salt'', JString ''AAAA''), (''length'', JInt 32), (''n'', JInt 1073741824),
      (''r'', JInt 64), (''p'', JInt 64), (''ciphertext_b64'', JString ''AAAA'')]) ''ciphertext_b64''
    = Inr (JString ''AAAA'')"
  by (simp_all add: getitem_def)

lemma three_not_power2: "\<nexists>k. (3 :: int) = 2 ^ k"
proof
  assume "\<exists>k. (3 :: int) = 2 ^ k"
  then obtain k where k: "(3 :: int) = 2 ^ k" by blast
  show False
  proof (cases k)
    case 0
    with k show False by simp
  next
    case (Suc j)
    with k have "(3 :: int) = 2 * 2 ^ j" by simp
    then show False by arith
  qed
qed

lemma big_power2: "\<exists>k. (1073741824 :: int) = 2 ^ k"
  by (rule exI [of _ 30]) simp

section \<open>The claims\<close>

text \<open>
  C10. An envelope that parses, whose \<open>length\<close> field is an integer other than 32, is never
  decrypted: whatever the password, \<open>decrypt_file\<close> ends in an error, because the key that
  scrypt returns has \<open>length\<close> octets and the \<^verbatim>\<open>Fernet\<close> constructor insists on 32 (when
  nothing fails earlier).
\<close>

theorem decrypt_file_length_not_32:
  assumes "crypto_contract cr"
    and "json_loads file_bytes = Inr msg"
    and "getitem msg ''length'' = Inr (JInt l)"
    and "l \<noteq> 32"
  shows "\<exists>e. decrypt_file cr password file_bytes = Inl e"
proof (cases "decrypt_file cr password file_bytes")
  case (Inl e)
  then show ?thesis by blast
next
  case (Inr m)
  from Inr obtain salt n r p kdf pw derived f where
    "Scrypt salt (JInt l) n r p = Inr kdf" "derive cr kdf pw = Inr derived"
    "Fernet (urlsafe_b64encode derived) = Inr f"
    unfolding decrypt_file_def Let_def using assms(2,3)
    by (auto dest!: bind_r_Inr)
  then have "int (length derived) = l" "length derived = 32"
    using derive_length [OF assms(1)] Scrypt_length Fernet_Inr by blast+
  with assms(4) show ?thesis by simp
qed

theorem decrypt_file_length_not_32_witness:
  "\<exists>e. decrypt_file demo_crypto [112, 119] short_key_envelope = Inl e"
proof -
  have "getitem (JObject
     [(''salt'', JString ''AAAA''), (''length'', JInt 16), (''n'', JInt 2), (''r'', JInt 1),
      (''p'', JInt 1), (''ciphertext_b64'', JString ''AAAA'')]) ''length'' = Inr (JInt 16)"
    by (simp add: getitem_def)
  moreover have "(16::int) \<noteq> 32" by simp
  ultimately show ?thesis
    using decrypt_file_length_not_32 [OF demo_crypto_contract short_key_envelope_loads]
    by blast
qed

text \<open>
  C1. Round trip. For a password that has a UTF-8 encoding, any data (the empty string
  included), any state of the entropy source and a clock within the range of eight octets:
  when the primitives meet their contract and scrypt delivers a key for the drawn salt,
  \<open>encrypt_file\<close> returns an envelope and \<open>decrypt_file\<close> with the same password returns
  exactly the data.
\<close>

theorem encrypt_decrypt_roundtrip:
  assumes "crypto_contract cr"
    and "str_encode password = Inr pw"
    and "scrypt_derive cr pw (drawn_salt w) 32 131072 8 1 \<noteq> None"
    and "0 \<le> clock w" and "clock w < 2 ^ 64"
  shows "\<exists>envelope. encrypt_file cr w password data = Inr envelope
           \<and> decrypt_file cr password envelope = Inr data"
proof -
  from assms(3) obtain k where k: "scrypt_derive cr pw (drawn_salt w) 32 131072 8 1 = Some k"
    by blast
  have len: "length k = 32"
    using contract_scrypt [OF assms(1) k] by simp
  obtain ts where ts: "int_to_bytes8 (clock w) = Inr ts"
    using int_to_bytes8_ok [OF assms(4,5)] by blast
  have "encrypt_file cr w password data
      = Inr (sealed_envelope cr (drawn_salt w) k ts (drawn_iv w) data)"
    by (rule encrypt_file_eq [OF assms(2) k len ts])
  moreover have "decrypt_file cr password (sealed_envelope cr (drawn_salt w) k ts (drawn_iv w) data)
      = Inr data"
    by (rule decrypt_file_sealed [OF assms(1,2) k int_to_bytes8_length [OF ts] drawn_lengths(2)])
  ultimately show ?thesis by simp
qed

theorem encrypt_decrypt_roundtrip_witness:
  "(\<exists>envelope. encrypt_file demo_crypto demo_world [112, 119] [] = Inr envelope
      \<and> decrypt_file demo_crypto [112, 119] envelope = Inr [])
   \<and> (\<exists>envelope. encrypt_file demo_crypto demo_world [112, 119] ''hello world'' = Inr envelope
      \<and> decrypt_file demo_crypto [112, 119] envelope = Inr ''hello world'')"
proof -
  have c: "0 \<le> clock demo_world" "clock demo_world < 2 ^ 64"
    by (simp_all add: demo_world_def)
  show ?thesis
    using encrypt_decrypt_roundtrip [OF demo_crypto_contract demo_password demo_derive c, of "[]"]
      encrypt_decrypt_roundtrip [OF demo_crypto_contract demo_password demo_derive c, of "''hello world''"]
    by blast
qed



text \<open>
  C7. Whenever \<open>encrypt_file\<close> returns an envelope, the salt is the 32 octets the entropy
  source delivers at the call (\<^verbatim>\<open>os.urandom(32)\<close>), the key is the scrypt output for the
  password's UTF-8 octets, that salt and the parameters length 32, \<open>n = 2^17\<close>, \<open>r = 8\<close>,
  \<open>p = 1\<close>, and these are the values the envelope records.
\<close>

theorem encrypt_file_salt_and_parameters:
  assumes "encrypt_file cr w password data = Inr envelope"
  shows "drawn_salt w = map (entropy w) [0..<32] \<and> length (drawn_salt w) = 32
    \<and> (\<exists>pw k c. str_encode password = Inr pw
          \<and> scrypt_derive cr pw (drawn_salt w) 32 (2 ^ 17) 8 1 = Some k
          \<and> length k = 32
          \<and> encrypt_symmetric_key cr w password = Inr (urlsafe_b64encode k)
          \<and> json_loads envelope = Inr (JObject
               [(''salt'', JString (urlsafe_b64encode (drawn_salt w))),
                (''length'', JInt 32), (''n'', JInt (2 ^ 17)), (''r'', JInt 8), (''p'', JInt 1),
                (''ciphertext_b64'', JString c)]))"
proof -
  from encrypt_file_inversion [OF assms] obtain pw k ts where
    "str_encode password = Inr pw"
    "scrypt_derive cr pw (drawn_salt w) 32 131072 8 1 = Some k" "length k = 32"
    "encrypt_symmetric_key cr w password = Inr (urlsafe_b64encode k)"
    "envelope = sealed_envelope cr (drawn_salt w) k ts (drawn_iv w) data"
    by blast
  then show ?thesis
    using sealed_envelope_loads [of cr "drawn_salt w" k ts "drawn_iv w" data]
    by (simp add: drawn_salt_entropy [symmetric] drawn_lengths envelope_message_def)
qed

theorem encrypt_file_salt_and_parameters_witness:
  "\<exists>envelope. encrypt_file demo_crypto demo_world [112, 119] ''hello world'' = Inr envelope
    \<and> drawn_salt demo_world = map (entropy demo_world) [0..<32]
    \<and> length (drawn_salt demo_world) = 32
    \<and> (\<exists>pw k c. str_encode [112, 119] = Inr pw
          \<and> scrypt_derive demo_crypto pw (drawn_salt demo_world) 32 (2 ^ 17) 8 1 = Some k
          \<and> length k = 32
          \<and> encrypt_symmetric_key demo_crypto demo_world [112, 119] = Inr (urlsafe_b64encode k)
          \<and> json_loads envelope = Inr (JObject
               [(''salt'', JString (urlsafe_b64encode (drawn_salt demo_world))),
                (''length'', JInt 32), (''n'', JInt (2 ^ 17)), (''r'', JInt 8), (''p'', JInt 1),
                (''ciphertext_b64'', JString c)]))"
proof -
  obtain envelope where
    e: "encrypt_file demo_crypto demo_world [112, 119] ''hello world'' = Inr envelope"
    using demo_encrypt by blast
  show ?thesis
    using encrypt_file_salt_and_parameters [OF e] e by blast
qed

text \<open>
  C9. Two calls of \<open>encrypt_file\<close> with the same password and data whose draws from the
  entropy source differ in the salt and in the initialisation vector return envelopes with
  different \<open>salt\<close> fields and different \<open>ciphertext_b64\<close> fields, and each envelope decrypts
  to the data under the password.
\<close>

theorem two_encryptions_differ:
  assumes "crypto_contract cr"
    and "encrypt_file cr w1 password data = Inr envelope1"
    and "encrypt_file cr w2 password data = Inr envelope2"
    and "drawn_salt w1 \<noteq> drawn_salt w2"
    and "drawn_iv w1 \<noteq> drawn_iv w2"
  shows "\<exists>s1 c1 s2 c2.
      json_loads envelope1 = Inr (envelope_message s1 c1)
    \<and> json_loads envelope2 = Inr (envelope_message s2 c2)
    \<and> s1 \<noteq> s2 \<and> c1 \<noteq> c2
    \<and> decrypt_file cr password envelope1 = Inr data
    \<and> decrypt_file cr password envelope2 = Inr data"
proof -
  from encrypt_file_inversion [OF assms(2)] obtain pw1 k1 ts1 where
    pw1: "str_encode password = Inr pw1"
    and k1: "scrypt_derive cr pw1 (drawn_salt w1) 32 131072 8 1 = Some k1"
    and ts1: "int_to_bytes8 (clock w1) = Inr ts1"
    and e1: "envelope1 = sealed_envelope cr (drawn_salt w1) k1 ts1 (drawn_iv w1) data"
    by blast
  from encrypt_file_inversion [OF assms(3)] obtain pw2 k2 ts2 where
    pw2: "str_encode password = Inr pw2"
    and k2: "scrypt_derive cr pw2 (drawn_salt w2) 32 131072 8 1 = Some k2"
    and ts2: "int_to_bytes8 (clock w2) = Inr ts2"
    and e2: "envelope2 = sealed_envelope cr (drawn_salt w2) k2 ts2 (drawn_iv w2) data"
    by blast
  note l1 = int_to_bytes8_length [OF ts1] and l2 = int_to_bytes8_length [OF ts2]
  have s: "urlsafe_b64encode (drawn_salt w1) \<noteq> urlsafe_b64encode (drawn_salt w2)"
    using assms(4) urlsafe_b64encode_inj by blast
  have c: "urlsafe_b64encode (fernet_token cr (key_pair k1) ts1 (drawn_iv w1) data)
      \<noteq> urlsafe_b64encode (fernet_token cr (key_pair k2) ts2 (drawn_iv w2) data)"
    using fernet_token_differs [OF l1 drawn_lengths(2) l2 drawn_lengths(2) assms(5)]
      urlsafe_b64encode_inj by blast
  have d1: "decrypt_file cr password envelope1 = Inr data"
    unfolding e1 by (rule decrypt_file_sealed [OF assms(1) pw1 k1 l1 drawn_lengths(2)])
  have d2: "decrypt_file cr password envelope2 = Inr data"
    unfolding e2 by (rule decrypt_file_sealed [OF assms(1) pw2 k2 l2 drawn_lengths(2)])
  show ?thesis
    using s c d1 d2 sealed_envelope_loads unfolding e1 e2 by blast
qed

theorem two_encryptions_differ_witness:
  "\<exists>envelope1 envelope2 s1 c1 s2 c2.
      encrypt_file demo_crypto demo_world [112, 119] ''hello world'' = Inr envelope1
    \<and> encrypt_file demo_crypto demo_world2 [112, 119] ''hello world'' = Inr envelope2
    \<and> json_loads envelope1 = Inr (envelope_message s1 c1)
    \<and> json_loads envelope2 = Inr (envelope_message s2 c2)
    \<and> s1 \<noteq> s2 \<and> c1 \<noteq> c2
    \<and> decrypt_file demo_crypto [112, 119] envelope1 = Inr ''hello world''
    \<and> decrypt_file demo_crypto [112, 119] envelope2 = Inr ''hello world''"
proof -
  obtain envelope1 envelope2 where
    e1: "encrypt_file demo_crypto demo_world [112, 119] ''hello world'' = Inr envelope1"
    and e2: "encrypt_file demo_crypto demo_world2 [112, 119] ''hello world'' = Inr envelope2"
    using demo_encrypt demo_encrypt2 by blast
  show ?thesis
    using two_encryptions_differ [OF demo_crypto_contract e1 e2 demo_worlds_differ] e1 e2
    by blast
qed

text \<open>
  C6, as the code has it. Every envelope \<open>encrypt_file\<close> returns is the JSON text of a
  dictionary with exactly the six fields \<open>salt\<close>, \<open>length\<close>, \<open>n\<close>, \<open>r\<close>, \<open>p\<close>, \<open>ciphertext_b64\<close>
  in this order. Both strings are URL-safe base64 with padding: their characters are of
  the URL-safe alphabet or \<^verbatim>\<open>=\<close> and their length is a multiple of four; the salt field has
  44 characters, the last one \<^verbatim>\<open>=\<close>, and decodes to the 32 octets of the salt.
\<close>

theorem envelope_format:
  assumes "encrypt_file cr w password data = Inr envelope"
  shows "\<exists>s c. envelope = json_dumps (JObject
             [(''salt'', JString s), (''length'', JInt 32), (''n'', JInt (2 ^ 17)),
              (''r'', JInt 8), (''p'', JInt 1), (''ciphertext_b64'', JString c)])
     \<and> json_loads envelope = Inr (JObject
             [(''salt'', JString s), (''length'', JInt 32), (''n'', JInt (2 ^ 17)),
              (''r'', JInt 8), (''p'', JInt 1), (''ciphertext_b64'', JString c)])
     \<and> list_all b64url_char s \<and> list_all b64url_char c
     \<and> length s = 44 \<and> last s = CHR ''=''
     \<and> urlsafe_b64decode s = Inr (drawn_salt w) \<and> length (drawn_salt w) = 32
     \<and> length c mod 4 = 0"
proof -
  from encrypt_file_inversion [OF assms] obtain k ts where
    e: "envelope = sealed_envelope cr (drawn_salt w) k ts (drawn_iv w) data"
    by blast
  define s where "s = urlsafe_b64encode (drawn_salt w)"
  define c where "c = urlsafe_b64encode (fernet_token cr (key_pair k) ts (drawn_iv w) data)"
  have "envelope = json_dumps (envelope_message s c)"
    by (simp add: e sealed_envelope_def s_def c_def)
  moreover have "json_loads envelope = Inr (envelope_message s c)"
    unfolding e s_def c_def by (rule sealed_envelope_loads)
  moreover have "list_all b64url_char s" "list_all b64url_char c"
    unfolding s_def c_def by (rule urlsafe_b64encode_alphabet)+
  moreover have "length s = 44" "last s = CHR ''=''"
    unfolding s_def using salt_field_shape [OF drawn_lengths(1)] by blast+
  moreover have "urlsafe_b64decode s = Inr (drawn_salt w)"
    unfolding s_def by (rule urlsafe_b64_roundtrip)
  moreover have "length c mod 4 = 0"
    unfolding c_def by (simp add: urlsafe_b64encode_length)
  ultimately show ?thesis
    unfolding envelope_message_def using drawn_lengths(1) [of w]
    by - (rule exI [of _ s], rule exI [of _ c], simp)
qed

theorem envelope_format_witness:
  "\<exists>envelope s c. encrypt_file demo_crypto demo_world [112, 119] ''hello world'' = Inr envelope
     \<and> envelope = json_dumps (JObject
             [(''salt'', JString s), (''length'', JInt 32), (''n'', JInt (2 ^ 17)),
              (''r'', JInt 8), (''p'', JInt 1), (''ciphertext_b64'', JString c)])
     \<and> json_loads envelope = Inr (JObject
             [(''salt'', JString s), (''length'', JInt 32), (''n'', JInt (2 ^ 17)),
              (''r'', JInt 8), (''p'', JInt 1), (''ciphertext_b64'', JString c)])
     \<and> list_all b64url_char s \<and> list_all b64url_char c
     \<and> length s = 44 \<and> last s = CHR ''=''
     \<and> urlsafe_b64decode s = Inr (drawn_salt demo_world) \<and> length (drawn_salt demo_world) = 32
     \<and> length c mod 4 = 0"
proof -
  obtain envelope where
    e: "encrypt_file demo_crypto demo_world [112, 119] ''hello world'' = Inr envelope"
    using demo_encrypt by blast
  from envelope_format [OF e] obtain s c where
    "envelope = json_dumps (JObject
             [(''salt'', JString s), (''length'', JInt 32), (''n'', JInt (2 ^ 17)),
              (''r'', JInt 8), (''p'', JInt 1), (''ciphertext_b64'', JString c)])
     \<and> json_loads envelope = Inr (JObject
             [(''salt'', JString s), (''length'', JInt 32), (''n'', JInt (2 ^ 17)),
              (''r'', JInt 8), (''p'', JInt 1), (''ciphertext_b64'', JString c)])
     \<and> list_all b64url_char s \<and> list_all b64url_char c
     \<and> length s = 44 \<and> last s = CHR ''=''
     \<and> urlsafe_b64decode s = Inr (drawn_salt demo_world) \<and> length (drawn_salt demo_world) = 32
     \<and> length c mod 4 = 0"
    by (elim exE)
  with e show ?thesis
    by - (rule exI [of _ envelope], rule exI [of _ s], rule exI [of _ c],
        elim conjE, intro conjI, assumption+)
qed

text \<open>
  The claim as stated, with strings free of padding, fails on every envelope: the salt
  field always contains \<^verbatim>\<open>=\<close>.
\<close>

theorem envelope_unpadded_counterexample:
  "\<not> (\<forall>cr w password data envelope.
        encrypt_file cr w password data = Inr envelope \<longrightarrow>
        (\<exists>s c. json_loads envelope = Inr (envelope_message s c)
           \<and> CHR ''='' \<notin> set s \<and> CHR ''='' \<notin> set c))"
proof
  assume a: "\<forall>cr w password data envelope.
        encrypt_file cr w password data = Inr envelope \<longrightarrow>
        (\<exists>s c. json_loads envelope = Inr (envelope_message s c)
           \<and> CHR ''='' \<notin> set s \<and> CHR ''='' \<notin> set c)"
  obtain envelope where
    e: "encrypt_file demo_crypto demo_world [112, 119] ''hello world'' = Inr envelope"
    using demo_encrypt by blast
  from a e obtain s c where l: "json_loads envelope = Inr (envelope_message s c)"
    and n: "CHR ''='' \<notin> set s"
    by blast
  from encrypt_file_inversion [OF e] obtain k ts where
    "envelope = sealed_envelope demo_crypto (drawn_salt demo_world) k ts (drawn_iv demo_world)
       ''hello world''"
    by blast
  with l have "s = urlsafe_b64encode (drawn_salt demo_world)"
    by (simp add: sealed_envelope_loads envelope_message_def)
  with n salt_field_shape [OF drawn_lengths(1), of demo_world] show False
    by simp
qed

text \<open>
  C4, as the code has it. Take an envelope that parses, with a decodable salt and integer
  fields \<open>length\<close>, \<open>n\<close>, \<open>r\<close>, \<open>p\<close>. If \<open>n\<close> is not a power of two, or \<open>n\<close> is below 2, or \<open>r\<close>
  or \<open>p\<close> is below 1, then \<open>decrypt_file\<close> ends in the \<^verbatim>\<open>ValueError\<close> of the \<^verbatim>\<open>Scrypt\<close>
  constructor, whatever the primitives and the password: no key derivation takes place.
  Otherwise there is no check of \<open>n\<close>, \<open>r\<close>, \<open>p\<close> against a ceiling: the embedded parameters
  go to scrypt as they are, and when scrypt refuses them that is the error of
  \<open>decrypt_file\<close>.
\<close>

theorem kdf_parameter_validation:
  assumes "json_loads file_bytes = Inr msg"
    and "getitem msg ''salt'' = Inr (JString s)"
    and "urlsafe_b64decode s = Inr salt"
    and "getitem msg ''length'' = Inr (JInt l)"
    and "getitem msg ''n'' = Inr (JInt n)"
    and "getitem msg ''r'' = Inr (JInt r)"
    and "getitem msg ''p'' = Inr (JInt p)"
  shows "((\<nexists>k. n = 2 ^ k) \<or> n < 2 \<or> r < 1 \<or> p < 1
            \<longrightarrow> (\<forall>cr password. decrypt_file cr password file_bytes = Inl ValueError))
       \<and> ((\<exists>k. n = 2 ^ k) \<and> 2 \<le> n \<and> 1 \<le> r \<and> 1 \<le> p
            \<longrightarrow> (\<forall>(cr :: crypto) password pw. str_encode password = Inr pw
                   \<longrightarrow> scrypt_derive cr pw salt l n r p = None
                   \<longrightarrow> decrypt_file cr password file_bytes = Inl ScryptDeriveError))"
proof (intro conjI impI allI)
  fix cr password
  assume a: "(\<nexists>k. n = 2 ^ k) \<or> n < 2 \<or> r < 1 \<or> p < 1"
  have "n < 2 \<or> (n AND (n - 1)) \<noteq> 0 \<or> r < 1 \<or> p < 1"
    using a and_pred_zero_power2 [of n] by fastforce
  then have "Scrypt salt (JInt l) (JInt n) (JInt r) (JInt p) = Inl ValueError"
    by (auto simp: Scrypt_def py_int_def)
  then show "decrypt_file cr password file_bytes = Inl ValueError"
    by (simp add: decrypt_file_fields [OF assms])
next
  fix cr :: crypto and password pw
  assume a: "(\<exists>k. n = 2 ^ k) \<and> 2 \<le> n \<and> 1 \<le> r \<and> 1 \<le> p"
    and pw: "str_encode password = Inr pw"
    and d: "scrypt_derive cr pw salt l n r p = None"
  have "n AND (n - 1) = 0"
    using a power2_and_pred by auto
  then have "Scrypt salt (JInt l) (JInt n) (JInt r) (JInt p)
      = Inr \<lparr>kdf_salt = salt, kdf_length = JInt l, kdf_n = n, kdf_r = r, kdf_p = p\<rparr>"
    using a by (simp add: Scrypt_def py_int_def)
  then show "decrypt_file cr password file_bytes = Inl ScryptDeriveError"
    using pw d by (simp add: decrypt_file_fields [OF assms] derive_def py_int_def)
qed

theorem kdf_parameter_validation_witness:
  "decrypt_file demo_crypto [112, 119] odd_n_envelope = Inl ValueError
   \<and> decrypt_file failing_crypto [112, 119] huge_cost_envelope = Inl ScryptDeriveError"
proof -
  have 1: "decrypt_file demo_crypto [112, 119] odd_n_envelope = Inl ValueError"
    using kdf_parameter_validation [OF odd_n_envelope_loads odd_n_fields(1) decode_AAAA
        odd_n_fields(2,3,4,5)] three_not_power2
    by blast
  have "scrypt_derive failing_crypto [char_of (112 :: nat), char_of (119 :: nat)]
      [CHR 0x00, CHR 0x00, CHR 0x00] 32 1073741824 64 64 = None"
    by (simp add: failing_crypto_def)
  then have 2: "decrypt_file failing_crypto [112, 119] huge_cost_envelope = Inl ScryptDeriveError"
    using kdf_parameter_validation [OF huge_cost_envelope_loads huge_cost_fields(1) decode_AAAA
        huge_cost_fields(2,3,4,5)] big_power2 demo_password
    by simp
  from 1 2 show ?thesis by simp
qed

text \<open>
  The claim as stated fails for a cost far above any ceiling (\<open>n = 2^30\<close>, \<open>r = 64\<close>,
  \<open>p = 64\<close>): what \<open>decrypt_file\<close> answers depends on what scrypt answers, so the
  parameters were not rejected before the derivation.
\<close>

theorem cost_ceiling_counterexample:
  "\<not> (\<exists>e. \<forall>cr. decrypt_file cr [112, 119] huge_cost_envelope = Inl e)"
proof
  assume "\<exists>e. \<forall>cr. decrypt_file cr [112, 119] huge_cost_envelope = Inl e"
  then obtain e where e: "\<And>cr. decrypt_file cr [112, 119] huge_cost_envelope = Inl e"
    by blast
  note f = decrypt_file_fields [OF huge_cost_envelope_loads huge_cost_fields(1) decode_AAAA
      huge_cost_fields(2,3,4,5)]
  have s: "Scrypt [CHR 0x00, CHR 0x00, CHR 0x00] (JInt 32) (JInt 1073741824) (JInt 64) (JInt 64)
      = Inr \<lparr>kdf_salt = [CHR 0x00, CHR 0x00, CHR 0x00], kdf_length = JInt 32,
          kdf_n = 1073741824, kdf_r = 64, kdf_p = 64\<rparr>"
    by (simp add: Scrypt_def py_int_def)
  have "decrypt_file failing_crypto [112, 119] huge_cost_envelope = Inl ScryptDeriveError"
    by (simp add: f s demo_password derive_def py_int_def failing_crypto_def
        del: str_encode.simps)
  moreover have "decrypt_file demo_crypto [112, 119] huge_cost_envelope = Inl InvalidToken"
  proof -
    obtain k where k: "scrypt_derive demo_crypto [char_of (112 :: nat), char_of (119 :: nat)]
        [CHR 0x00, CHR 0x00, CHR 0x00] 32 1073741824 64 64 = Some k"
      by (simp add: demo_crypto_def)
    have len: "length k = 32"
      using contract_scrypt [OF demo_crypto_contract k] by simp
    have "urlsafe_b64decode [CHR 0x00, CHR 0x00, CHR 0x00] = Inr []"
      by (simp add: urlsafe_b64decode_def b64_value_def)
    then have fd: "fernet_decrypt demo_crypto (key_pair k) [CHR 0x00, CHR 0x00, CHR 0x00]
        = Inl InvalidToken"
      by (simp add: fernet_decrypt_def)
    show ?thesis
      using k fd
      by (simp add: f s demo_password derive_def py_int_def huge_cost_fields(6)
          jstr_encode_def decode_AAAA Fernet_key [OF len] key_pair_def
          del: str_encode.simps)
  qed
  ultimately show False
    using e [of failing_crypto] e [of demo_crypto] by simp
qed

end
